theory Spec2Isabelle
  imports Main "HOL-Library.AList"
begin

section \<open>Schema derivation from struct types (go-mcp, protocol/schema\_generate.go)\<close>

text \<open>
  The program reflects over a Go struct type and derives a JSON-Schema-like
  \<open>Property\<close> tree from its fields and tags. This theory embeds the three
  functions of the file (\<open>generateSchemaFromReqStruct\<close>, \<open>reflectSchemaByObject\<close>,
  \<open>reflectSchemaByType\<close>) together with the pieces of the Go standard library
  they call, and proves the properties the specification states about them.

  Conventions of the embedding:
  \<^item> a Go string is a \<open>string\<close> (a list of bytes);
  \<^item> a function returning \<open>(*T, error)\<close> returns \<open>error + T\<close>, \<open>Inl\<close> being the error;
    a run-time panic of package reflect is the error value \<open>Panic\<close>;
  \<^item> a nil map, slice, pointer or interface value is \<open>None\<close>;
  \<^item> a Go map is an association list with distinct keys, assignment being
    \<open>AList.update\<close>; only \<open>map_of\<close> of it is meaningful, since Go does not
    fix an iteration order;
  \<^item> a \<open>reflect.Type\<close> is a finite tree (\<open>gotype\<close>). Go also admits cyclic
    types (a struct holding a pointer to itself), on which the program
    recurses without end; they are outside this model.
\<close>

subsection \<open>Package strings\<close>

definition HasSuffix :: "string \<Rightarrow> string \<Rightarrow> bool" where
  "HasSuffix s suffix \<longleftrightarrow>
     length suffix \<le> length s \<and> drop (length s - length suffix) s = suffix"

definition TrimSuffix :: "string \<Rightarrow> string \<Rightarrow> string" where
  "TrimSuffix s suffix =
     (if HasSuffix s suffix then take (length s - length suffix) s else s)"

text \<open>\<open>strings.Split(s, ",")\<close>: the pieces of \<open>s\<close> between commas; one piece more than commas.\<close>

fun Split_comma :: "string \<Rightarrow> string list" where
  "Split_comma [] = [[]]"
| "Split_comma (c # cs) =
     (if c = CHR '','' then [] # Split_comma cs
      else (case Split_comma cs of
              [] \<Rightarrow> [[c]]
            | w # ws \<Rightarrow> (c # w) # ws))"

text \<open>\<open>strings.Join(elems, ",")\<close>, to say what \<open>Split_comma\<close> computes.\<close>

fun Join_comma :: "string list \<Rightarrow> string" where
  "Join_comma [] = []"
| "Join_comma [w] = w"
| "Join_comma (w # v # ws) = w @ CHR '','' # Join_comma (v # ws)"

subsection \<open>Packages unicode/utf8 and unicode, and \<open>strings.TrimSpace\<close>\<close>

text \<open>
  A rune is a \<open>nat\<close>. \<open>utf8.DecodeRuneInString\<close> returns the first rune of a
  string and its width in bytes; a byte that starts no well-formed sequence
  is \<open>RuneError\<close> with width 1. The lead byte fixes the width and the range
  of the second byte (the tables \<open>first\<close> and \<open>acceptRanges\<close>).
\<close>

definition RuneError :: nat where
  "RuneError = 0xFFFD"

definition DecodeRuneInString :: "string \<Rightarrow> nat \<times> nat" where
  "DecodeRuneInString s =
     (case s of
        [] \<Rightarrow> (RuneError, 0)
      | c0 # rest \<Rightarrow>
          (let s0 = (of_char c0 :: nat) in
           if s0 < 0x80 then (s0, 1)
           else if s0 < 0xC2 \<or> 0xF4 < s0 then (RuneError, 1)
           else
             (let sz = (if s0 < 0xE0 then 2 else if s0 < 0xF0 then 3 else 4 :: nat);
                  lo = (if s0 = 0xE0 then 0xA0 else if s0 = 0xF0 then 0x90 else 0x80 :: nat);
                  hi = (if s0 = 0xED then 0x9F else if s0 = 0xF4 then 0x8F else 0xBF :: nat)
              in if length s < sz then (RuneError, 1)
                 else
                   (let s1 = (of_char (s ! 1) :: nat) in
                    if s1 < lo \<or> hi < s1 then (RuneError, 1)
                    else if sz \<le> 2 then (s0 mod 32 * 64 + s1 mod 64, 2)
                    else
                      (let s2 = (of_char (s ! 2) :: nat) in
                       if s2 < 0x80 \<or> 0xBF < s2 then (RuneError, 1)
                       else if sz \<le> 3 then
                         (s0 mod 16 * 4096 + s1 mod 64 * 64 + s2 mod 64, 3)
                       else
                         (let s3 = (of_char (s ! 3) :: nat) in
                          if s3 < 0x80 \<or> 0xBF < s3 then (RuneError, 1)
                          else (s0 mod 8 * 262144 + s1 mod 64 * 4096 + s2 mod 64 * 64
                                  + s3 mod 64, 4)))))))"

text \<open>\<open>utf8.RuneStart\<close>: the byte is not a continuation byte.\<close>

definition RuneStart :: "char \<Rightarrow> bool" where
  "RuneStart b \<longleftrightarrow> \<not> (0x80 \<le> (of_char b :: nat) \<and> (of_char b :: nat) < 0xC0)"

text \<open>
  \<open>utf8.DecodeLastRuneInString\<close>: the last rune of a string and its width. It
  looks back from the byte before the last over at most \<open>UTFMax = 4\<close> bytes
  for a byte that starts a rune (\<open>start\<close> is the index it stops at, the one
  below \<open>lim\<close> or 0 when there is none) and decodes from there; the rune
  counts only if it ends where the string ends.
\<close>

definition DecodeLastRuneInString :: "string \<Rightarrow> nat \<times> nat" where
  "DecodeLastRuneInString s =
     (let end = length s in
      if end = 0 then (RuneError, 0)
      else if (of_char (s ! (end - 1)) :: nat) < 0x80 then (of_char (s ! (end - 1)), 1)
      else
        (let lim = end - 4;
             start = (case find (\<lambda>i. RuneStart (s ! i)) (rev [lim ..< end - 1]) of
                        Some i \<Rightarrow> i
                      | None \<Rightarrow> lim - 1);
             (r, wid) = DecodeRuneInString (drop start s)
         in if start + wid \<noteq> end then (RuneError, 1) else (r, wid)))"

text \<open>\<open>unicode.IsSpace\<close>: the Latin-1 spaces and the rest of the property White\_Space.\<close>

definition IsSpace :: "nat \<Rightarrow> bool" where
  "IsSpace r \<longleftrightarrow>
     r \<in> {0x09, 0x0A, 0x0B, 0x0C, 0x0D, 0x20, 0x85, 0xA0,
          0x1680, 0x2028, 0x2029, 0x202F, 0x205F, 0x3000} \<or>
     (0x2000 \<le> r \<and> r \<le> 0x200A)"

text \<open>
  \<open>strings.TrimLeftFunc(s, unicode.IsSpace)\<close>: the string from its first rune
  that is no space (\<open>indexFunc\<close> ranges over the runes, which decodes as
  \<open>DecodeRuneInString\<close> does), empty if there is none.
\<close>

function TrimLeftFunc :: "string \<Rightarrow> string" where
  "TrimLeftFunc s =
     (if s = [] then []
      else (case DecodeRuneInString s of
              (r, wid) \<Rightarrow> if IsSpace r then TrimLeftFunc (drop wid s) else s))"
  by pat_completeness auto
termination
proof -
  have pos: "0 < wid" if "(r, wid) = DecodeRuneInString s" and "s \<noteq> []" for r wid s
    using that by (cases s) (auto simp: DecodeRuneInString_def Let_def split: if_splits)
  show ?thesis
    by (relation "measure length") (auto dest: pos)
qed

text \<open>
  \<open>lastIndexFunc(s, unicode.IsSpace, false)\<close>: the index at which the last
  rune that is no space starts, \<open>None\<close> for \<open>-1\<close>.
\<close>

function lastIndexFunc :: "string \<Rightarrow> nat option" where
  "lastIndexFunc s =
     (if s = [] then None
      else (case DecodeLastRuneInString s of
              (r, wid) \<Rightarrow>
                if \<not> IsSpace r then Some (length s - wid)
                else lastIndexFunc (take (length s - wid) s)))"
  by pat_completeness auto
termination
proof -
  have pos: "0 < wid" if "(r, wid) = DecodeLastRuneInString s" and "s \<noteq> []" for r wid s
  proof (rule ccontr)
    assume "\<not> 0 < wid"
    with that(1) have zero: "DecodeLastRuneInString s = (r, 0)" by simp
    let ?lim = "length s - 4"
    let ?start = "case find (\<lambda>i. RuneStart (s ! i)) (rev [?lim ..< length s - 1]) of
                    Some i \<Rightarrow> i | None \<Rightarrow> ?lim - 1"
    have mem: "i \<in> set ns" if "find P ns = Some i" for P and i :: nat and ns
      using that by (auto simp: find_Some_iff)
    have "?start < length s"
      using that(2) by (auto split: option.splits dest!: mem)
    with zero that(2) show False
      by (auto simp: DecodeLastRuneInString_def Let_def split: if_splits prod.splits)
  qed
  show ?thesis
    by (relation "measure length") (auto dest: pos)
qed

text \<open>\<open>strings.TrimRightFunc(s, unicode.IsSpace)\<close>: the string up to the end of that rune.\<close>

definition TrimRightFunc :: "string \<Rightarrow> string" where
  "TrimRightFunc s =
     (case lastIndexFunc s of
        None \<Rightarrow> []
      | Some i \<Rightarrow>
          if 0x80 \<le> (of_char (s ! i) :: nat)
          then take (i + snd (DecodeRuneInString (drop i s))) s
          else take (i + 1) s)"

text \<open>
  \<open>strings.TrimSpace\<close>. The first loop drops leading ASCII spaces (the table
  \<open>asciiSpace\<close>) and the second, \<open>trimStop\<close>, trailing ones; either hands
  over to the functions above at the first byte that is not ASCII.
\<close>

definition asciiSpace :: "char \<Rightarrow> bool" where
  "asciiSpace c \<longleftrightarrow> c \<in> {CHR 0x09, CHR 0x0A, CHR 0x0B, CHR 0x0C, CHR 0x0D, CHR '' ''}"

function trimStop :: "string \<Rightarrow> string" where
  "trimStop t =
     (if t = [] then []
      else if 0x80 \<le> (of_char (last t) :: nat) then TrimRightFunc t
      else if asciiSpace (last t) then trimStop (butlast t)
      else t)"
  by pat_completeness auto
termination
  by (relation "measure length") auto

fun TrimSpace :: "string \<Rightarrow> string" where
  "TrimSpace [] = []"
| "TrimSpace (c # cs) =
     (if 0x80 \<le> (of_char c :: nat) then TrimRightFunc (TrimLeftFunc (c # cs))
      else if asciiSpace c then TrimSpace cs
      else trimStop (c # cs))"

subsection \<open>Package strconv\<close>

definition isDigit :: "char \<Rightarrow> bool" where
  "isDigit c \<longleftrightarrow> 48 \<le> (of_char c :: nat) \<and> (of_char c :: nat) \<le> 57"

text \<open>The number a string of decimal digits denotes.\<close>

definition decimal :: "string \<Rightarrow> nat" where
  "decimal s = foldl (\<lambda>n c. 10 * n + (of_char c - 48)) 0 s"

text \<open>
  \<open>strconv.ParseUint(s, 10, 64)\<close>: one or more decimal digits, no sign, no
  underscore, the value below \<open>2^64\<close>. \<open>None\<close> is a non-nil error.
\<close>

definition ParseUint :: "string \<Rightarrow> nat option" where
  "ParseUint s =
     (if s = [] \<or> \<not> list_all isDigit s then None
      else if 2 ^ 64 \<le> decimal s then None
      else Some (decimal s))"

text \<open>
  \<open>strconv.Atoi(s)\<close>, that is \<open>ParseInt(s, 10, 0)\<close>, for the 64-bit \<open>int\<close>: an
  optional sign, then the digits as \<open>ParseUint\<close> reads them, the value within
  \<open>-2^63 .. 2^63 - 1\<close>.
\<close>

definition Atoi :: "string \<Rightarrow> int option" where
  "Atoi s =
     (case s of
        [] \<Rightarrow> None
      | c # cs \<Rightarrow>
          (let neg = (c = CHR ''-'');
               ds = (if c = CHR ''+'' \<or> c = CHR ''-'' then cs else s)
           in case ParseUint ds of
                None \<Rightarrow> None
              | Some un \<Rightarrow>
                  if \<not> neg \<and> 2 ^ 63 \<le> un then None
                  else if neg \<and> 2 ^ 63 < un then None
                  else Some (if neg then - int un else int un)))"

text \<open>\<open>strconv.ParseBool\<close> accepts exactly twelve spellings.\<close>

definition ParseBool :: "string \<Rightarrow> bool option" where
  "ParseBool str =
     (if str \<in> {''1'', ''t'', ''T'', ''TRUE'', ''true'', ''True''} then Some True
      else if str \<in> {''0'', ''f'', ''F'', ''FALSE'', ''false'', ''False''} then Some False
      else None)"

text \<open>
  \<open>strconv.ParseFloat(s, 64)\<close> is not modelled: floating-point parsing is a
  parameter \<open>pf :: string \<Rightarrow> 'f option\<close> of every function that reaches it,
  \<open>'f\<close> standing for \<open>float64\<close> and \<open>None\<close> for a non-nil error.
\<close>

subsection \<open>Package reflect: kinds, types and struct fields\<close>

datatype Kind =
    reflect_Invalid | reflect_Bool
  | reflect_Int | reflect_Int8 | reflect_Int16 | reflect_Int32 | reflect_Int64
  | reflect_Uint | reflect_Uint8 | reflect_Uint16 | reflect_Uint32 | reflect_Uint64
  | reflect_Uintptr
  | reflect_Float32 | reflect_Float64 | reflect_Complex64 | reflect_Complex128
  | reflect_Array | reflect_Chan | reflect_Func | reflect_Interface | reflect_Map
  | reflect_Ptr | reflect_Slice | reflect_String | reflect_Struct
  | reflect_UnsafePointer

text \<open>
  A \<open>reflect.Type\<close>, one constructor for each kind, with what the program reads
  of it: the element type of an array, slice or pointer, key and element type
  of a map, and of a struct its package path, name and printed form (read by
  \<open>getTypeUUID\<close>) and its fields. A struct tag is kept parsed, as the list of
  its key/value pairs.
\<close>

datatype gotype =
    TInvalid | TBool
  | TInt | TInt8 | TInt16 | TInt32 | TInt64
  | TUint | TUint8 | TUint16 | TUint32 | TUint64
  | TUintptr
  | TFloat32 | TFloat64 | TComplex64 | TComplex128
  | TChan | TFunc | TInterface | TUnsafePointer
  | TString
  | TArray (Elem: gotype)
  | TSlice (Elem: gotype)
  | TPtr (Elem: gotype)
  | TMap (Key: gotype) (Elem: gotype)
  | TStruct (PkgPath: string) (TypeName: string) (TypeString: string)
      (Fields: "StructField list")
and StructField =
    StructField (Name: string) (Anonymous: bool) (IsExported: bool)
      (Tag: "(string \<times> string) list") (FieldType: gotype)

fun KindOf :: "gotype \<Rightarrow> Kind" where
  "KindOf TInvalid = reflect_Invalid"
| "KindOf TBool = reflect_Bool"
| "KindOf TInt = reflect_Int"
| "KindOf TInt8 = reflect_Int8"
| "KindOf TInt16 = reflect_Int16"
| "KindOf TInt32 = reflect_Int32"
| "KindOf TInt64 = reflect_Int64"
| "KindOf TUint = reflect_Uint"
| "KindOf TUint8 = reflect_Uint8"
| "KindOf TUint16 = reflect_Uint16"
| "KindOf TUint32 = reflect_Uint32"
| "KindOf TUint64 = reflect_Uint64"
| "KindOf TUintptr = reflect_Uintptr"
| "KindOf TFloat32 = reflect_Float32"
| "KindOf TFloat64 = reflect_Float64"
| "KindOf TComplex64 = reflect_Complex64"
| "KindOf TComplex128 = reflect_Complex128"
| "KindOf TChan = reflect_Chan"
| "KindOf TFunc = reflect_Func"
| "KindOf TInterface = reflect_Interface"
| "KindOf TUnsafePointer = reflect_UnsafePointer"
| "KindOf TString = reflect_String"
| "KindOf (TArray e) = reflect_Array"
| "KindOf (TSlice e) = reflect_Slice"
| "KindOf (TPtr e) = reflect_Ptr"
| "KindOf (TMap k e) = reflect_Map"
| "KindOf (TStruct pk nm st fs) = reflect_Struct"

text \<open>\<open>StructTag.Get\<close>: the value of the first pair with the key, the empty string without one.\<close>

definition Get :: "(string \<times> string) list \<Rightarrow> string \<Rightarrow> string" where
  "Get tag key = (case map_of tag key of None \<Rightarrow> [] | Some v \<Rightarrow> v)"

subsection \<open>The schema data model\<close>

datatype DataType = ObjectT | Number | Integer | String | Array | Null | Boolean

text \<open>A value of type \<open>any\<close> as the program stores it in \<open>Enum\<close> and \<open>Default\<close>.\<close>

datatype 'f anyval =
    VString string | VInt int | VUint nat | VFloat 'f | VBool bool

datatype 'f Property =
  Property (Type: DataType) (Description: string) (Items: "'f Property option")
    (Properties: "(string \<times> 'f Property) list option") (Required: "string list option")
    (Enum: "'f anyval list option") (Default: "'f anyval option")

text \<open>Assignments to one field of a \<open>Property\<close>.\<close>

definition set_Type :: "DataType \<Rightarrow> 'f Property \<Rightarrow> 'f Property" where
  "set_Type ty p =
     Property ty (Description p) (Items p) (Properties p) (Required p) (Enum p) (Default p)"

definition set_Description :: "string \<Rightarrow> 'f Property \<Rightarrow> 'f Property" where
  "set_Description d p =
     Property (Type p) d (Items p) (Properties p) (Required p) (Enum p) (Default p)"

definition set_Enum :: "'f anyval list \<Rightarrow> 'f Property \<Rightarrow> 'f Property" where
  "set_Enum vs p =
     Property (Type p) (Description p) (Items p) (Properties p) (Required p) (Some vs) (Default p)"

definition set_Default :: "'f anyval \<Rightarrow> 'f Property \<Rightarrow> 'f Property" where
  "set_Default v p =
     Property (Type p) (Description p) (Items p) (Properties p) (Required p) (Enum p) (Some v)"

text \<open>The zero \<open>Property\<close> with its \<open>Type\<close> set, as \<open>reflectSchemaByType\<close> builds it.\<close>

definition bare :: "DataType \<Rightarrow> 'f Property" where
  "bare ty = Property ty [] None None None None None"

text \<open>
  The errors of the file, one constructor for each \<open>fmt.Errorf\<close>, carrying the
  values its message prints. The message of \<open>DuplicateProperty\<close> names one
  colliding property; which one depends on Go's map iteration order, so the
  name is not kept. \<open>Panic\<close> is the run-time panic of \<open>NumField\<close> on a type that
  is not a struct.
\<close>

datatype target = IntegerType | UnsignedIntegerType | FloatType | BooleanType

datatype error =
    InvalidType gotype
  | UnsupportedKind Kind
  | UnsupportedMapKey Kind
  | DuplicateProperty
  | InvalidRequired string
  | EnumNotCompatible string target gotype
  | EnumUnsupportedType gotype
  | DefaultNotCompatible string target gotype
  | Panic

subsection \<open>Tag conversion (the two \<open>switch field.Type.Kind()\<close>)\<close>

text \<open>Lines 136 to 165: one enum literal, already trimmed.\<close>

definition enumValue :: "(string \<Rightarrow> 'f option) \<Rightarrow> gotype \<Rightarrow> string \<Rightarrow> error + 'f anyval" where
  "enumValue pf fieldType v =
     (let asInt = (case Atoi v of
                     None \<Rightarrow> Inl (EnumNotCompatible v IntegerType fieldType)
                   | Some intVal \<Rightarrow> Inr (VInt intVal));
          asUint = (case ParseUint v of
                     None \<Rightarrow> Inl (EnumNotCompatible v UnsignedIntegerType fieldType)
                   | Some uintVal \<Rightarrow> Inr (VUint uintVal));
          asFloat = (case pf v of
                     None \<Rightarrow> Inl (EnumNotCompatible v FloatType fieldType)
                   | Some floatVal \<Rightarrow> Inr (VFloat floatVal));
          asBool = (case ParseBool v of
                     None \<Rightarrow> Inl (EnumNotCompatible v BooleanType fieldType)
                   | Some boolVal \<Rightarrow> Inr (VBool boolVal))
      in case KindOf fieldType of
           reflect_String \<Rightarrow> Inr (VString v)
         | reflect_Int \<Rightarrow> asInt | reflect_Int8 \<Rightarrow> asInt | reflect_Int16 \<Rightarrow> asInt
         | reflect_Int32 \<Rightarrow> asInt | reflect_Int64 \<Rightarrow> asInt
         | reflect_Uint \<Rightarrow> asUint | reflect_Uint8 \<Rightarrow> asUint | reflect_Uint16 \<Rightarrow> asUint
         | reflect_Uint32 \<Rightarrow> asUint | reflect_Uint64 \<Rightarrow> asUint
         | reflect_Float32 \<Rightarrow> asFloat | reflect_Float64 \<Rightarrow> asFloat
         | reflect_Bool \<Rightarrow> asBool
         | _ \<Rightarrow> Inl (EnumUnsupportedType fieldType))"

text \<open>Lines 132 to 166: the loop over the pieces of the tag, filling \<open>enumValues\<close> in order.\<close>

fun enumLoop :: "(string \<Rightarrow> 'f option) \<Rightarrow> gotype \<Rightarrow> string list \<Rightarrow> error + 'f anyval list" where
  "enumLoop pf fieldType [] = Inr []"
| "enumLoop pf fieldType (v # rest) =
     (case enumValue pf fieldType (TrimSpace v) of
        Inl err \<Rightarrow> Inl err
      | Inr x \<Rightarrow>
          (case enumLoop pf fieldType rest of
             Inl err \<Rightarrow> Inl err
           | Inr xs \<Rightarrow> Inr (x # xs)))"

text \<open>Lines 173 to 204: the default literal, not trimmed.\<close>

definition defaultValue :: "(string \<Rightarrow> 'f option) \<Rightarrow> gotype \<Rightarrow> string \<Rightarrow> error + 'f anyval" where
  "defaultValue pf fieldType v =
     (let asInt = (case Atoi v of
                     None \<Rightarrow> Inl (DefaultNotCompatible v IntegerType fieldType)
                   | Some intVal \<Rightarrow> Inr (VInt intVal));
          asUint = (case ParseUint v of
                     None \<Rightarrow> Inl (DefaultNotCompatible v UnsignedIntegerType fieldType)
                   | Some uintVal \<Rightarrow> Inr (VUint uintVal));
          asFloat = (case pf v of
                     None \<Rightarrow> Inl (DefaultNotCompatible v FloatType fieldType)
                   | Some floatVal \<Rightarrow> Inr (VFloat floatVal));
          asBool = (case ParseBool v of
                     None \<Rightarrow> Inl (DefaultNotCompatible v BooleanType fieldType)
                   | Some boolVal \<Rightarrow> Inr (VBool boolVal))
      in case KindOf fieldType of
           reflect_String \<Rightarrow> Inr (VString v)
         | reflect_Int \<Rightarrow> asInt | reflect_Int8 \<Rightarrow> asInt | reflect_Int16 \<Rightarrow> asInt
         | reflect_Int32 \<Rightarrow> asInt | reflect_Int64 \<Rightarrow> asInt
         | reflect_Uint \<Rightarrow> asUint | reflect_Uint8 \<Rightarrow> asUint | reflect_Uint16 \<Rightarrow> asUint
         | reflect_Uint32 \<Rightarrow> asUint | reflect_Uint64 \<Rightarrow> asUint
         | reflect_Float32 \<Rightarrow> asFloat | reflect_Float64 \<Rightarrow> asFloat
         | reflect_Bool \<Rightarrow> asBool
         | _ \<Rightarrow> Inr (VString v))"

subsection \<open>\<open>reflectSchemaByObject\<close>: the body of the field loop\<close>

text \<open>Lines 118 to 123: the \<open>required\<close> tag, if there is one, replaces the computed value.\<close>

definition requiredTag :: "StructField \<Rightarrow> string \<Rightarrow> bool \<Rightarrow> error + bool" where
  "requiredTag field jsonTag required =
     (let s = Get (Tag field) ''required''
      in if s \<noteq> [] then
           (case ParseBool s of
              None \<Rightarrow> Inl (InvalidRequired jsonTag)
            | Some b \<Rightarrow> Inr b)
         else Inr required)"

text \<open>Lines 128 to 168: the \<open>enum\<close> tag.\<close>

definition enumTag :: "(string \<Rightarrow> 'f option) \<Rightarrow> StructField \<Rightarrow> 'f Property \<Rightarrow> error + 'f Property" where
  "enumTag pf field item =
     (let v = Get (Tag field) ''enum''
      in if v \<noteq> [] then
           (case enumLoop pf (FieldType field) (Split_comma v) of
              Inl err \<Rightarrow> Inl err
            | Inr enumValues \<Rightarrow> Inr (set_Enum enumValues item))
         else Inr item)"

text \<open>Lines 170 to 205: the \<open>default\<close> tag.\<close>

definition defaultTag :: "(string \<Rightarrow> 'f option) \<Rightarrow> StructField \<Rightarrow> 'f Property \<Rightarrow> error + 'f Property" where
  "defaultTag pf field item =
     (let defaultValue' = Get (Tag field) ''default''
      in if defaultValue' \<noteq> [] then
           (case defaultValue pf (FieldType field) defaultValue' of
              Inl err \<Rightarrow> Inl err
            | Inr d \<Rightarrow> Inr (set_Default d item))
         else Inr item)"

text \<open>
  Lines 99 to 205, for a field that is neither anonymous nor unexported nor
  tagged \<open>json:"-"\<close>. \<open>reflected\<close> is what \<open>reflectSchemaByType(field.Type)\<close>
  returns. \<open>item\<close> is a pointer: the map entry written at line 116 is the object
  that lines 167 to 203 go on to change, so the entry holds \<open>item\<close> as it is at
  the end of the body, and the model stores it there. Every error leaves the
  function, so no state is returned with it.
\<close>

definition fieldBody ::
  "(string \<Rightarrow> 'f option) \<Rightarrow> StructField \<Rightarrow> error + 'f Property \<Rightarrow>
   (string \<times> 'f Property) list \<Rightarrow> string list \<Rightarrow>
   error + ((string \<times> 'f Property) list \<times> string list)" where
  "fieldBody pf field reflected properties requiredFields =
     (let jsonTag = Get (Tag field) ''json'';
          jsonTag = (if jsonTag = [] then Name field else jsonTag);
          required = \<not> HasSuffix jsonTag '',omitempty'';
          jsonTag = TrimSuffix jsonTag '',omitempty''
      in case reflected of
           Inl err \<Rightarrow> Inl err
         | Inr item \<Rightarrow>
        (let description = Get (Tag field) ''description'';
             item = (if description \<noteq> [] then set_Description description item else item)
         in case requiredTag field jsonTag required of
              Inl err \<Rightarrow> Inl err
            | Inr required \<Rightarrow>
           (let requiredFields =
                  (if required then requiredFields @ [jsonTag] else requiredFields)
            in case enumTag pf field item of
                 Inl err \<Rightarrow> Inl err
               | Inr item \<Rightarrow>
                   (case defaultTag pf field item of
                      Inl err \<Rightarrow> Inl err
                    | Inr item \<Rightarrow>
                        Inr (AList.update jsonTag item properties, requiredFields)))))"

subsection \<open>\<open>reflectSchemaByObject\<close>: the two loops\<close>

text \<open>
  A field together with what the two reflectors return on its type. The loops
  are written over such triples, so that they keep the shape of the source
  (the first loop collects \<open>anonymousFields\<close>, the second runs over them) while
  the recursion on types stays structural; the loops read a result only where
  the source makes the call.
\<close>

type_synonym 'f reflectedField = "StructField \<times> (error + 'f Property) \<times> (error + 'f Property)"

text \<open>Lines 83 to 206.\<close>

fun fieldLoop ::
  "(string \<Rightarrow> 'f option) \<Rightarrow> 'f reflectedField list \<Rightarrow>
   (string \<times> 'f Property) list \<Rightarrow> string list \<Rightarrow> 'f reflectedField list \<Rightarrow>
   error + ((string \<times> 'f Property) list \<times> string list \<times> 'f reflectedField list)" where
  "fieldLoop pf [] properties requiredFields anonymousFields =
     Inr (properties, requiredFields, anonymousFields)"
| "fieldLoop pf ((field, byType, byObject) # rest) properties requiredFields anonymousFields =
     (if Anonymous field then
        fieldLoop pf rest properties requiredFields
          (anonymousFields @ [(field, byType, byObject)])
      else if \<not> IsExported field then
        fieldLoop pf rest properties requiredFields anonymousFields
      else if Get (Tag field) ''json'' = ''-'' then
        fieldLoop pf rest properties requiredFields anonymousFields
      else
        (case fieldBody pf field byType properties requiredFields of
           Inl err \<Rightarrow> Inl err
         | Inr (properties', requiredFields') \<Rightarrow>
             fieldLoop pf rest properties' requiredFields' anonymousFields))"

text \<open>
  Lines 213 to 218: the properties of an embedded struct are added one by one,
  a name that is already there being an error. A nil map has no entries.
\<close>

fun mergeLoop ::
  "(string \<times> 'f Property) list \<Rightarrow> (string \<times> 'f Property) list \<Rightarrow>
   error + (string \<times> 'f Property) list" where
  "mergeLoop [] properties = Inr properties"
| "mergeLoop ((propName, propValue) # rest) properties =
     (if map_of properties propName \<noteq> None then Inl DuplicateProperty
      else mergeLoop rest (AList.update propName propValue properties))"

definition entries :: "'a list option \<Rightarrow> 'a list" where
  "entries m = (case m of None \<Rightarrow> [] | Some xs \<Rightarrow> xs)"

text \<open>Lines 208 to 220.\<close>

fun anonymousLoop ::
  "'f reflectedField list \<Rightarrow> (string \<times> 'f Property) list \<Rightarrow> string list \<Rightarrow>
   error + ((string \<times> 'f Property) list \<times> string list)" where
  "anonymousLoop [] properties requiredFields = Inr (properties, requiredFields)"
| "anonymousLoop ((field, byType, byObject) # rest) properties requiredFields =
     (case byObject of
        Inl err \<Rightarrow> Inl err
      | Inr object \<Rightarrow>
          (case mergeLoop (entries (Properties object)) properties of
             Inl err \<Rightarrow> Inl err
           | Inr properties' \<Rightarrow>
               anonymousLoop rest properties' (requiredFields @ entries (Required object))))"

text \<open>Lines 77 to 227, on the reflected fields of the struct.\<close>

definition objectBody :: "(string \<Rightarrow> 'f option) \<Rightarrow> 'f reflectedField list \<Rightarrow> error + 'f Property" where
  "objectBody pf fields =
     (case fieldLoop pf fields [] [] [] of
        Inl err \<Rightarrow> Inl err
      | Inr (properties, requiredFields, anonymousFields) \<Rightarrow>
          (case anonymousLoop anonymousFields properties requiredFields of
             Inl err \<Rightarrow> Inl err
           | Inr (properties', requiredFields') \<Rightarrow>
               Inr (Property ObjectT [] None (Some properties') (Some requiredFields') None None)))"

subsection \<open>\<open>reflectSchemaByObject\<close> and \<open>reflectSchemaByType\<close>\<close>

function (sequential)
  reflectSchemaByObject :: "(string \<Rightarrow> 'f option) \<Rightarrow> gotype \<Rightarrow> error + 'f Property" and
  reflectSchemaByType :: "(string \<Rightarrow> 'f option) \<Rightarrow> gotype \<Rightarrow> error + 'f Property" where
  "reflectSchemaByObject pf (TStruct pk nm st fs) =
     objectBody pf
       (map (\<lambda>field. (field, reflectSchemaByType pf (FieldType field),
                              reflectSchemaByObject pf (FieldType field))) fs)"
| "reflectSchemaByObject pf t = Inl Panic"
| "reflectSchemaByType pf TString = Inr (bare String)"
| "reflectSchemaByType pf TInt = Inr (bare Integer)"
| "reflectSchemaByType pf TInt8 = Inr (bare Integer)"
| "reflectSchemaByType pf TInt16 = Inr (bare Integer)"
| "reflectSchemaByType pf TInt32 = Inr (bare Integer)"
| "reflectSchemaByType pf TInt64 = Inr (bare Integer)"
| "reflectSchemaByType pf TUint = Inr (bare Integer)"
| "reflectSchemaByType pf TUint8 = Inr (bare Integer)"
| "reflectSchemaByType pf TUint16 = Inr (bare Integer)"
| "reflectSchemaByType pf TUint32 = Inr (bare Integer)"
| "reflectSchemaByType pf TUint64 = Inr (bare Integer)"
| "reflectSchemaByType pf TFloat32 = Inr (bare Number)"
| "reflectSchemaByType pf TFloat64 = Inr (bare Number)"
| "reflectSchemaByType pf TBool = Inr (bare Boolean)"
| "reflectSchemaByType pf (TSlice e) =
     (case reflectSchemaByType pf e of
        Inl err \<Rightarrow> Inl err
      | Inr items \<Rightarrow> Inr (Property Array [] (Some items) None None None None))"
| "reflectSchemaByType pf (TArray e) =
     (case reflectSchemaByType pf e of
        Inl err \<Rightarrow> Inl err
      | Inr items \<Rightarrow> Inr (Property Array [] (Some items) None None None None))"
| "reflectSchemaByType pf (TStruct pk nm st fs) =
     (case reflectSchemaByObject pf (TStruct pk nm st fs) of
        Inl err \<Rightarrow> Inl err
      | Inr object \<Rightarrow> Inr (set_Type ObjectT object))"
| "reflectSchemaByType pf (TMap k e) =
     (if KindOf k \<noteq> reflect_String then Inl (UnsupportedMapKey (KindOf k))
      else Inr (bare ObjectT))"
| "reflectSchemaByType pf (TPtr e) =
     (case reflectSchemaByType pf e of
        Inl err \<Rightarrow> Inl err
      | Inr p \<Rightarrow> Inr p)"
| "reflectSchemaByType pf t = Inl (UnsupportedKind (KindOf t))"
  by pat_completeness auto
termination
proof -
  have smaller: "size (FieldType f) < size_list size fs" if "f \<in> set fs"
    for f :: StructField and fs
    using that by (induction fs) (auto simp: less_Suc_eq, (cases f; simp)+)
  show ?thesis
    by (relation "measure (\<lambda>x. case x of Inl (pf, t) \<Rightarrow> 2 * size t
                                        | Inr (pf, t) \<Rightarrow> 2 * size t + 1)")
       (auto dest: smaller)
qed

subsection \<open>\<open>generateSchemaFromReqStruct\<close> and the cache\<close>

text \<open>
  Modelled from the spec: the struct \<open>InputSchema\<close> is declared in another file
  of the package. It is the Root Schema: always of kind object, holding only
  the properties and the required list.
\<close>

datatype 'f InputSchema =
  InputSchema (SchemaProperties: "(string \<times> 'f Property) list option")
    (SchemaRequired: "string list option")

text \<open>
  Modelled from the spec: \<open>pkg.SyncMap\<close>, the cache, is declared in another
  package. It maps a key to a stored schema; \<open>Load\<close> looks a key up and
  \<open>Store\<close> sets it. Calls are taken one at a time.
\<close>

type_synonym 'f SyncMap = "string \<rightharpoonup> 'f InputSchema"

definition Load :: "'f SyncMap \<Rightarrow> string \<Rightarrow> 'f InputSchema option" where
  "Load m key = m key"

definition Store :: "'f SyncMap \<Rightarrow> string \<Rightarrow> 'f InputSchema \<Rightarrow> 'f SyncMap" where
  "Store m key v = m(key \<mapsto> v)"

definition getTypeUUID :: "gotype \<Rightarrow> string" where
  "getTypeUUID t =
     (if PkgPath t \<noteq> [] \<and> TypeName t \<noteq> [] then PkgPath t @ ''.'' @ TypeName t
      else TypeString t)"

text \<open>Lines 42 to 47: pointers are followed down to a struct.\<close>

fun resolve :: "gotype \<Rightarrow> error + gotype" where
  "resolve (TStruct pk nm st fs) = Inr (TStruct pk nm st fs)"
| "resolve (TPtr e) = resolve e"
| "resolve t = Inl (InvalidType t)"

text \<open>
  The argument is the type of the value passed, \<open>reflect.TypeOf(v)\<close>; the
  function returns its result and the cache as it leaves it.
\<close>

definition generateSchemaFromReqStruct ::
  "(string \<Rightarrow> 'f option) \<Rightarrow> 'f SyncMap \<Rightarrow> gotype \<Rightarrow> (error + 'f InputSchema) \<times> 'f SyncMap" where
  "generateSchemaFromReqStruct pf schemaCache t0 =
     (case resolve t0 of
        Inl err \<Rightarrow> (Inl err, schemaCache)
      | Inr t \<Rightarrow>
          (let typeUID = getTypeUUID t
           in case Load schemaCache typeUID of
                Some schema \<Rightarrow> (Inr schema, schemaCache)
              | None \<Rightarrow>
                  (case reflectSchemaByObject pf t of
                     Inl err \<Rightarrow> (Inl err, schemaCache)
                   | Inr property \<Rightarrow>
                       (let schema = InputSchema (Properties property) (Required property)
                        in (Inr schema, Store schemaCache typeUID schema)))))"

subsection \<open>Notions of the specification\<close>

text \<open>The fields of a struct, each with the results of the two reflectors on its type.\<close>

definition reflectFields :: "(string \<Rightarrow> 'f option) \<Rightarrow> StructField list \<Rightarrow> 'f reflectedField list" where
  "reflectFields pf fs =
     map (\<lambda>field. (field, reflectSchemaByType pf (FieldType field),
                            reflectSchemaByObject pf (FieldType field))) fs"

text \<open>
  An explicit field: one the Object Reflector derives a property for. It is not
  embedded, it is exported and its naming tag is not \<open>-\<close>.
\<close>

definition explicitField :: "StructField \<Rightarrow> bool" where
  "explicitField f \<longleftrightarrow> \<not> Anonymous f \<and> IsExported f \<and> Get (Tag f) ''json'' \<noteq> ''-''"

definition embeddedField :: "StructField \<Rightarrow> bool" where
  "embeddedField f \<longleftrightarrow> Anonymous f"

definition declaredField :: "StructField \<Rightarrow> bool" where
  "declaredField f \<longleftrightarrow> \<not> Anonymous f"

text \<open>
  The external name of a field: the naming tag if there is one, else the
  declared name, without a trailing \<open>,omitempty\<close>.
\<close>

definition externalName :: "StructField \<Rightarrow> string" where
  "externalName f =
     TrimSuffix (if Get (Tag f) ''json'' = [] then Name f else Get (Tag f) ''json'')
       '',omitempty''"

text \<open>
  Requiredness as the specification words it: required by default, not
  required if the naming tag ends in \<open>,omitempty\<close>, and a non-empty
  \<open>required\<close> tag overrides that with its boolean literal; \<open>None\<close> when the
  literal is malformed.
\<close>

definition spec_required :: "StructField \<Rightarrow> bool option" where
  "spec_required f =
     (if Get (Tag f) ''required'' \<noteq> [] then ParseBool (Get (Tag f) ''required'')
      else Some (\<not> HasSuffix (Get (Tag f) ''json'') '',omitempty''))"

text \<open>The kinds with a conversion rule, and the target each error message names.\<close>

definition signedKind :: "Kind \<Rightarrow> bool" where
  "signedKind k \<longleftrightarrow>
     k \<in> {reflect_Int, reflect_Int8, reflect_Int16, reflect_Int32, reflect_Int64}"

definition unsignedKind :: "Kind \<Rightarrow> bool" where
  "unsignedKind k \<longleftrightarrow>
     k \<in> {reflect_Uint, reflect_Uint8, reflect_Uint16, reflect_Uint32, reflect_Uint64}"

definition floatKind :: "Kind \<Rightarrow> bool" where
  "floatKind k \<longleftrightarrow> k \<in> {reflect_Float32, reflect_Float64}"

definition primitiveKind :: "Kind \<Rightarrow> bool" where
  "primitiveKind k \<longleftrightarrow>
     k = reflect_String \<or> signedKind k \<or> unsignedKind k \<or> floatKind k \<or> k = reflect_Bool"

text \<open>
  The per-kind conversion rule of the specification: string kept as it is,
  signed kinds parsed base 10, unsigned kinds parsed base 10 unsigned, float
  kinds parsed as floating point, boolean parsed as a boolean literal.
  \<open>None\<close> is a conversion failure. Kinds without a rule are not asked here.
\<close>

definition spec_convert :: "(string \<Rightarrow> 'f option) \<Rightarrow> Kind \<Rightarrow> string \<Rightarrow> 'f anyval option" where
  "spec_convert pf k lit =
     (if k = reflect_String then Some (VString lit)
      else if signedKind k then map_option VInt (Atoi lit)
      else if unsignedKind k then map_option VUint (ParseUint lit)
      else if floatKind k then map_option VFloat (pf lit)
      else map_option VBool (ParseBool lit))"

definition spec_target :: "Kind \<Rightarrow> target" where
  "spec_target k =
     (if signedKind k then IntegerType
      else if unsignedKind k then UnsignedIntegerType
      else if floatKind k then FloatType
      else BooleanType)"

text \<open>The literals of an enum tag: the pieces between commas, each trimmed.\<close>

definition enumLiterals :: "string \<Rightarrow> string list" where
  "enumLiterals v = map TrimSpace (Split_comma v)"

text \<open>The property names of an object, and the nodes of a schema tree.\<close>

definition propertyNames :: "'f Property \<Rightarrow> string list" where
  "propertyNames p = map fst (entries (Properties p))"

fun nodes :: "'f Property \<Rightarrow> 'f Property list" where
  "nodes (Property ty d items props req en df) =
     Property ty d items props req en df
     # (case items of None \<Rightarrow> [] | Some q \<Rightarrow> nodes q)
     @ (case props of None \<Rightarrow> [] | Some ps \<Rightarrow> concat (map (\<lambda>(n, q). nodes q) ps))"

text \<open>
  What the specification's invariant asks of a node of kind object
  (\<open>spec_objectNode\<close>), and what holds of every such node (\<open>objectNode\<close>):
  no items and no enum, properties and required list both there or both
  absent, and a default, if any, that is a string.
\<close>

definition spec_objectNode :: "'f Property \<Rightarrow> bool" where
  "spec_objectNode q \<longleftrightarrow>
     (Type q = ObjectT \<longrightarrow>
        Properties q \<noteq> None \<and> Required q \<noteq> None \<and>
        Items q = None \<and> Enum q = None \<and> Default q = None)"

definition objectNode :: "'f Property \<Rightarrow> bool" where
  "objectNode q \<longleftrightarrow>
     (Type q = ObjectT \<longrightarrow>
        Items q = None \<and> Enum q = None \<and>
        (Properties q = None \<longleftrightarrow> Required q = None) \<and>
        (Default q = None \<or> (\<exists>s. Default q = Some (VString s))))"

text \<open>The same of every node of a schema tree.\<close>

definition spec_objectNodes :: "'f Property \<Rightarrow> bool" where
  "spec_objectNodes p \<longleftrightarrow> (\<forall>q \<in> set (nodes p). spec_objectNode q)"

definition objectNodes :: "'f Property \<Rightarrow> bool" where
  "objectNodes p \<longleftrightarrow> (\<forall>q \<in> set (nodes p). objectNode q)"

text \<open>A floating-point parser that accepts nothing, for structs without float fields.\<close>

definition noFloat :: "string \<Rightarrow> unit option" where
  "noFloat s = None"

section \<open>Properties of the loops\<close>

lemma reflectSchemaByObject_struct:
  "reflectSchemaByObject pf (TStruct pk nm st fs) = objectBody pf (reflectFields pf fs)"
  by (simp add: reflectFields_def)

lemma reflectFields_append:
  "reflectFields pf (xs @ ys) = reflectFields pf xs @ reflectFields pf ys"
  by (simp add: reflectFields_def)

lemma reflectFields_filter:
  "filter (\<lambda>r. P (fst r)) (reflectFields pf fs) = reflectFields pf (filter P fs)"
  by (induction fs) (simp_all add: reflectFields_def)

lemma fieldLoop_append:
  "fieldLoop pf (xs @ ys) props req anon =
     (case fieldLoop pf xs props req anon of
        Inl err \<Rightarrow> Inl err
      | Inr (props', req', anon') \<Rightarrow> fieldLoop pf ys props' req' anon')"
  by (induction pf xs props req anon rule: fieldLoop.induct)
     (simp_all split: sum.splits)

lemma fieldLoop_anonymous:
  "fieldLoop pf rfs props req anon =
     (case fieldLoop pf (filter (\<lambda>r. \<not> Anonymous (fst r)) rfs) props req [] of
        Inl err \<Rightarrow> Inl err
      | Inr (props', req', anon') \<Rightarrow>
          Inr (props', req', anon @ filter (\<lambda>r. Anonymous (fst r)) rfs))"
  by (induction pf rfs props req anon rule: fieldLoop.induct)
     (simp_all split: sum.splits)

lemma fieldLoop_anon_result:
  "fieldLoop pf rfs props req anon = Inr (props', req', anon')
   \<Longrightarrow> anon' = anon @ filter (\<lambda>r. Anonymous (fst r)) rfs"
  by (induction pf rfs props req anon rule: fieldLoop.induct)
     (auto split: sum.splits if_splits)

lemma mergeLoop_error: "mergeLoop xs props = Inl err \<Longrightarrow> err = DuplicateProperty"
  by (induction xs props rule: mergeLoop.induct) (simp_all split: if_splits)

lemma mergeLoop_keys:
  "mergeLoop xs props = Inr props' \<Longrightarrow>
     distinct (map fst xs) \<and> fst ` set xs \<inter> fst ` set props = {}"
proof (induction xs props rule: mergeLoop.induct)
  case (1 properties)
  then show ?case by simp
next
  case (2 propName propValue rest properties)
  from "2.prems" have free: "map_of properties propName = None"
    and rest: "mergeLoop rest (AList.update propName propValue properties) = Inr props'"
    by (simp_all split: if_splits)
  from "2.IH" [OF _ rest] free
  have "distinct (map fst rest)"
    and "fst ` set rest \<inter> fst ` set (AList.update propName propValue properties) = {}"
    by auto
  with free show ?case
    by (auto simp: dom_update map_of_eq_None_iff)
qed

lemma mergeLoop_success:
  "distinct (map fst xs) \<Longrightarrow> fst ` set xs \<inter> fst ` set props = {} \<Longrightarrow>
     \<exists>props'. mergeLoop xs props = Inr props'"
proof (induction xs props rule: mergeLoop.induct)
  case (1 properties)
  then show ?case by simp
next
  case (2 propName propValue rest properties)
  from "2.prems" have free: "map_of properties propName = None"
    by (auto simp: map_of_eq_None_iff)
  from "2.prems"
  have "fst ` set rest \<inter> fst ` set (AList.update propName propValue properties) = {}"
    by (auto simp: dom_update)
  with "2.IH" [OF _ _ this] "2.prems" free show ?case by simp
qed

lemma mergeLoop_map_of:
  "mergeLoop xs props = Inr props' \<Longrightarrow> map_of props' = map_of props ++ map_of xs"
proof (induction xs props rule: mergeLoop.induct)
  case (1 properties)
  then show ?case by simp
next
  case (2 propName propValue rest properties)
  from "2.prems" have free: "map_of properties propName = None"
    and rest: "mergeLoop rest (AList.update propName propValue properties) = Inr props'"
    by (simp_all split: if_splits)
  from mergeLoop_keys [OF "2.prems"] have fresh: "propName \<notin> fst ` set rest" by simp
  then have "map_of rest propName = None" by (simp add: map_of_eq_None_iff)
  with "2.IH" [OF _ rest] free show ?case
    by (auto simp: update_conv' map_add_def fun_eq_iff split: option.splits)
qed

lemma mergeLoop_distinct:
  "mergeLoop xs props = Inr props' \<Longrightarrow> distinct (map fst props) \<Longrightarrow> distinct (map fst props')"
  by (induction xs props rule: mergeLoop.induct) (simp_all add: distinct_update split: if_splits)

lemma mergeLoop_set:
  "mergeLoop xs props = Inr props' \<Longrightarrow> set props' \<subseteq> set props \<union> set xs"
proof (induction xs props rule: mergeLoop.induct)
  case (1 properties)
  then show ?case by simp
next
  case (2 propName propValue rest properties)
  from "2.prems" have free: "map_of properties propName = None"
    and rest: "mergeLoop rest (AList.update propName propValue properties) = Inr props'"
    by (simp_all split: if_splits)
  have "set (AList.update propName propValue properties) \<subseteq> insert (propName, propValue) (set properties)"
    by (induction properties) auto
  with "2.IH" [OF _ rest] free show ?case by auto
qed

text \<open>The definitions to unfold when a derivation is run on a given struct.\<close>

lemmas run_defs =
  objectBody_def fieldBody_def requiredTag_def enumTag_def defaultTag_def Get_def
  HasSuffix_def TrimSuffix_def bare_def entries_def
  set_Type_def set_Description_def set_Enum_def set_Default_def Let_def

section \<open>Keyed mappings\<close>

text \<open>
  C7. A type of map kind whose key is not of string kind is rejected with
  \<open>UnsupportedMapKey\<close>, naming the kind of the key. With a key of string kind
  the result is an object with nothing else set: no properties, no required
  list, no items, enum or default. The element type of the map is not looked
  at, so the result is the same for every value type, supported or not.
\<close>

theorem map_kind_reflection:
  assumes "KindOf t = reflect_Map"
  shows "reflectSchemaByType pf t =
           (if KindOf (Key t) = reflect_String
            then Inr (Property ObjectT [] None None None None None)
            else Inl (UnsupportedMapKey (KindOf (Key t))))"
  using assms by (cases t) (simp_all add: bare_def)

theorem map_kind_reflection_witness:
  "KindOf (TMap TString TChan) = reflect_Map \<and>
   reflectSchemaByType noFloat (TMap TString TChan) =
     Inr (Property ObjectT [] None None None None None) \<and>
   KindOf (TMap TInt TString) = reflect_Map \<and>
   reflectSchemaByType noFloat (TMap TInt TString) = Inl (UnsupportedMapKey reflect_Int)"
  using map_kind_reflection [of "TMap TString TChan" noFloat]
    map_kind_reflection [of "TMap TInt TString" noFloat]
  by simp

section \<open>Failures and the cache\<close>

text \<open>
  C9. A call that fails returns the error alone (the result is \<open>Inl\<close>, which
  carries no schema) and leaves the cache as it was, so the same call
  afterwards fails in the same way: either the type does not resolve to a
  struct, or the cache still has no entry under the key of the type and the
  error is the one \<open>reflectSchemaByObject\<close> returns, reflection being run
  again. In the other direction, on a cache miss every error of
  \<open>reflectSchemaByObject\<close> is what the top level returns, with the cache
  untouched.
\<close>

theorem failed_derivation_not_cached:
  "(generateSchemaFromReqStruct pf schemaCache t = (Inl err, schemaCache') \<longrightarrow>
      schemaCache' = schemaCache \<and>
      generateSchemaFromReqStruct pf schemaCache' t = (Inl err, schemaCache') \<and>
      (resolve t = Inl err \<or>
       (\<exists>s. resolve t = Inr s \<and> Load schemaCache' (getTypeUUID s) = None \<and>
            reflectSchemaByObject pf s = Inl err))) \<and>
   (resolve t = Inr s \<and> Load schemaCache (getTypeUUID s) = None \<and>
    reflectSchemaByObject pf s = Inl err \<longrightarrow>
      generateSchemaFromReqStruct pf schemaCache t = (Inl err, schemaCache))"
  by (auto simp: generateSchemaFromReqStruct_def Let_def split: sum.splits option.splits)

theorem failed_derivation_not_cached_witness:
  "generateSchemaFromReqStruct noFloat Map.empty
     (TPtr (TStruct ''pkg'' ''T'' ''pkg.T'' [StructField ''C'' False True [] TChan])) =
     (Inl (UnsupportedKind reflect_Chan), Map.empty) \<and>
   resolve (TPtr (TStruct ''pkg'' ''T'' ''pkg.T'' [StructField ''C'' False True [] TChan])) =
     Inr (TStruct ''pkg'' ''T'' ''pkg.T'' [StructField ''C'' False True [] TChan]) \<and>
   Load (Map.empty :: unit SyncMap)
     (getTypeUUID (TStruct ''pkg'' ''T'' ''pkg.T'' [StructField ''C'' False True [] TChan])) = None \<and>
   reflectSchemaByObject noFloat
     (TStruct ''pkg'' ''T'' ''pkg.T'' [StructField ''C'' False True [] TChan]) =
     Inl (UnsupportedKind reflect_Chan)"
proof -
  let ?s = "TStruct ''pkg'' ''T'' ''pkg.T'' [StructField ''C'' False True [] TChan]"
  have r: "resolve (TPtr ?s) = Inr ?s" by simp
  have l: "Load (Map.empty :: unit SyncMap) (getTypeUUID ?s) = None"
    by (simp add: Load_def)
  have e: "reflectSchemaByObject noFloat ?s = Inl (UnsupportedKind reflect_Chan)"
    by (simp add: run_defs)
  from failed_derivation_not_cached
    [of noFloat Map.empty "TPtr ?s" "UnsupportedKind reflect_Chan" Map.empty ?s] r l e
  show ?thesis by simp
qed

section \<open>The loop body, step by step\<close>

text \<open>The requiredness the body computes, as an option.\<close>

lemma requiredTag_spec:
  assumes "CHR '','' \<notin> set (Name f)"
  shows "requiredTag f (externalName f)
           (\<not> HasSuffix (if Get (Tag f) ''json'' = [] then Name f else Get (Tag f) ''json'')
                 '',omitempty'') =
         (case spec_required f of
            None \<Rightarrow> Inl (InvalidRequired (externalName f))
          | Some b \<Rightarrow> Inr b)"
proof -
  have "\<not> HasSuffix (Name f) '',omitempty''"
  proof
    assume "HasSuffix (Name f) '',omitempty''"
    then have "drop (length (Name f) - length '',omitempty'') (Name f) = '',omitempty''"
      by (simp add: HasSuffix_def)
    then have "CHR '','' \<in> set (drop (length (Name f) - length '',omitempty'') (Name f))"
      by simp
    then show False using assms by (meson in_set_dropD)
  qed
  moreover have "\<not> HasSuffix [] '',omitempty''" by (simp add: HasSuffix_def)
  ultimately show ?thesis
    by (simp add: requiredTag_def spec_required_def Let_def split: option.splits)
qed

lemma fieldBody_unfold:
  "fieldBody pf f (Inr item) props req =
     (case requiredTag f (externalName f)
             (\<not> HasSuffix (if Get (Tag f) ''json'' = [] then Name f else Get (Tag f) ''json'')
                   '',omitempty'') of
        Inl err \<Rightarrow> Inl err
      | Inr b \<Rightarrow>
          (case enumTag pf f
                  (if Get (Tag f) ''description'' \<noteq> []
                   then set_Description (Get (Tag f) ''description'') item else item) of
             Inl err \<Rightarrow> Inl err
           | Inr item1 \<Rightarrow>
               (case defaultTag pf f item1 of
                  Inl err \<Rightarrow> Inl err
                | Inr item2 \<Rightarrow>
                    Inr (AList.update (externalName f) item2 props,
                         if b then req @ [externalName f] else req))))"
  by (simp add: fieldBody_def externalName_def Let_def split: sum.splits)

lemma fieldBody_Inl [simp]: "fieldBody pf f (Inl err) props req = Inl err"
  by (simp add: fieldBody_def Let_def)

lemma fieldBody_isl:
  "isl (fieldBody pf f r props req) = isl (fieldBody pf f r [] [])"
  by (cases r) (simp_all add: fieldBody_unfold split: sum.splits)

lemma fieldBody_required:
  assumes "fieldBody pf f r props req = Inr (props', req')" and "CHR '','' \<notin> set (Name f)"
  shows "req' = req @ (if spec_required f = Some True then [externalName f] else [])"
  using assms
  by (cases r) (auto simp: fieldBody_unfold requiredTag_spec split: sum.splits option.splits)

lemma fieldBody_malformed_required:
  assumes "spec_required f = None"
  shows "isl (fieldBody pf f r props req)"
proof -
  from assms have "Get (Tag f) ''required'' \<noteq> []" "ParseBool (Get (Tag f) ''required'') = None"
    by (simp_all add: spec_required_def split: if_splits)
  then show ?thesis
    by (cases r) (simp_all add: fieldBody_unfold requiredTag_def)
qed

lemma fieldLoop_fails:
  assumes "(f, a, b) \<in> set rfs" and "explicitField f" and "isl (fieldBody pf f a [] [])"
  shows "isl (fieldLoop pf rfs props req anon)"
  using assms
proof (induction pf rfs props req anon rule: fieldLoop.induct)
  case (1 pf properties requiredFields anonymousFields)
  then show ?case by simp
next
  case (2 pf field byType byObject rest properties requiredFields anonymousFields)
  show ?case
  proof (cases "(f, a, b) = (field, byType, byObject)")
    case True
    with "2.prems" fieldBody_isl [of pf f a properties requiredFields]
    show ?thesis by (auto simp: explicitField_def split: sum.splits)
  next
    case False
    with "2.prems" have "(f, a, b) \<in> set rest" by auto
    with 2 show ?thesis by (auto split: sum.splits)
  qed
qed

lemma objectBody_fails:
  assumes "(f, a, b) \<in> set rfs" and "explicitField f" and "isl (fieldBody pf f a [] [])"
  shows "isl (objectBody pf rfs)"
  using fieldLoop_fails [OF assms, of "[]" "[]" "[]"]
  by (auto simp: objectBody_def split: sum.splits)

lemma reflectFields_member:
  "f \<in> set fs \<Longrightarrow>
     (f, reflectSchemaByType pf (FieldType f), reflectSchemaByObject pf (FieldType f))
       \<in> set (reflectFields pf fs)"
  by (auto simp: reflectFields_def)

lemma fieldLoop_required:
  assumes "fieldLoop pf (reflectFields pf fs) props req anon = Inr (props', req', anon')"
    and "\<forall>f \<in> set fs. CHR '','' \<notin> set (Name f)"
  shows "req' = req @ map externalName
                       (filter (\<lambda>f. explicitField f \<and> spec_required f = Some True) fs)"
  using assms
proof (induction fs arbitrary: props req anon)
  case Nil
  then show ?case by (simp add: reflectFields_def)
next
  case (Cons f fs)
  let ?a = "reflectSchemaByType pf (FieldType f)"
  show ?case
  proof (cases "explicitField f")
    case True
    with Cons.prems(1) obtain props1 req1
      where body: "fieldBody pf f ?a props req = Inr (props1, req1)"
        and rest: "fieldLoop pf (reflectFields pf fs) props1 req1 anon = Inr (props', req', anon')"
      by (auto simp: reflectFields_def explicitField_def split: sum.splits)
    from fieldBody_required [OF body] Cons.prems(2)
    have "req1 = req @ (if spec_required f = Some True then [externalName f] else [])"
      by simp
    with Cons.IH [OF rest] Cons.prems(2) True show ?thesis by simp
  next
    case False
    with Cons.prems(1)
    have "\<exists>anon1. fieldLoop pf (reflectFields pf fs) props req anon1 = Inr (props', req', anon')"
      by (auto simp: reflectFields_def explicitField_def split: if_splits)
    with Cons.IH Cons.prems(2) False show ?thesis by auto
  qed
qed

lemma anonymousLoop_required:
  "anonymousLoop rfs props req = Inr (props', req') \<Longrightarrow>
     req' = req @ concat (map (\<lambda>r. entries (Required (projr (snd (snd r))))) rfs)"
  by (induction rfs props req rule: anonymousLoop.induct) (auto split: sum.splits)

section \<open>The required list\<close>

lemma fieldLoop_reflectFields_anon:
  assumes "fieldLoop pf (reflectFields pf fs) props req [] = Inr (props', req', anon')"
  shows "anon' = reflectFields pf (filter Anonymous fs)"
  using fieldLoop_anon_result [OF assms] reflectFields_filter [of Anonymous pf fs]
  by simp

lemma objectBody_required:
  assumes "objectBody pf (reflectFields pf fs) = Inr p"
    and "\<forall>f \<in> set fs. CHR '','' \<notin> set (Name f)"
  shows "Required p =
           Some (map externalName
                   (filter (\<lambda>f. explicitField f \<and> spec_required f = Some True) fs) @
                 concat (map (\<lambda>f. entries (Required (projr (reflectSchemaByObject pf (FieldType f)))))
                           (filter embeddedField fs)))"
proof -
  from assms(1) obtain props req anon props' req'
    where loop1: "fieldLoop pf (reflectFields pf fs) [] [] [] = Inr (props, req, anon)"
      and loop2: "anonymousLoop anon props req = Inr (props', req')"
      and p: "p = Property ObjectT [] None (Some props') (Some req') None None"
    by (auto simp: objectBody_def split: sum.splits)
  from fieldLoop_required [OF loop1 assms(2)]
  have req: "req = map externalName
                     (filter (\<lambda>f. explicitField f \<and> spec_required f = Some True) fs)"
    by simp
  from fieldLoop_reflectFields_anon [OF loop1]
  have anon: "anon = reflectFields pf (filter Anonymous fs)" .
  have "embeddedField = Anonymous" by (simp add: embeddedField_def fun_eq_iff)
  with anonymousLoop_required [OF loop2] req anon p show ?thesis
    by (simp add: reflectFields_def comp_def)
qed

text \<open>
  C4. Take a struct whose field names are Go identifiers (they hold no comma).
  If its schema derives, the required list is made of the external names of
  the explicit fields whose requiredness, computed as the specification words
  it (\<open>spec_required\<close>: required by default, not with \<open>,omitempty\<close>, overridden
  by a \<open>required\<close> tag), is true, in declaration order, followed by the
  required lists of the embedded structs. An explicit field whose \<open>required\<close>
  tag is not a boolean literal makes the derivation of the struct fail.
\<close>

theorem required_list_membership:
  "(reflectSchemaByObject pf (TStruct pk nm st fs) = Inr p \<and>
    (\<forall>f \<in> set fs. CHR '','' \<notin> set (Name f)) \<longrightarrow>
      Required p =
        Some (map externalName
                (filter (\<lambda>f. explicitField f \<and> spec_required f = Some True) fs) @
              concat (map (\<lambda>f. entries (Required (projr (reflectSchemaByObject pf (FieldType f)))))
                        (filter embeddedField fs)))) \<and>
   (g \<in> set fs \<and> explicitField g \<and> spec_required g = None \<longrightarrow>
      isl (reflectSchemaByObject pf (TStruct pk nm st fs)))"
proof (intro conjI impI)
  assume "reflectSchemaByObject pf (TStruct pk nm st fs) = Inr p \<and>
          (\<forall>f \<in> set fs. CHR '','' \<notin> set (Name f))"
  then show "Required p =
        Some (map externalName
                (filter (\<lambda>f. explicitField f \<and> spec_required f = Some True) fs) @
              concat (map (\<lambda>f. entries (Required (projr (reflectSchemaByObject pf (FieldType f)))))
                        (filter embeddedField fs)))"
    using objectBody_required [of pf fs p]
    by (simp add: reflectSchemaByObject_struct del: reflectSchemaByObject.simps)
next
  assume g: "g \<in> set fs \<and> explicitField g \<and> spec_required g = None"
  then have "isl (fieldBody pf g (reflectSchemaByType pf (FieldType g)) [] [])"
    by (simp add: fieldBody_malformed_required)
  with g reflectFields_member [of g fs pf]
  have "isl (objectBody pf (reflectFields pf fs))"
    by (blast intro: objectBody_fails)
  then show "isl (reflectSchemaByObject pf (TStruct pk nm st fs))"
    by (simp add: reflectSchemaByObject_struct del: reflectSchemaByObject.simps)
qed

lemma ParseBool_simps:
  "ParseBool ''true'' = Some True" "ParseBool ''false'' = Some False"
  "ParseBool ''maybe'' = None"
  by (simp_all add: ParseBool_def)

theorem required_list_membership_witness:
  "reflectSchemaByObject noFloat
     (TStruct ''pkg'' ''T'' ''pkg.T''
        [StructField ''A'' False True [(''json'', ''a'')] TString,
         StructField ''B'' False True [(''json'', ''b,omitempty'')] TString,
         StructField ''C'' False True [(''json'', ''c,omitempty''), (''required'', ''true'')] TInt,
         StructField ''D'' False True [(''required'', ''false'')] TBool]) =
     Inr (Property ObjectT [] None
            (Some [(''a'', Property String [] None None None None None),
                   (''b'', Property String [] None None None None None),
                   (''c'', Property Integer [] None None None None None),
                   (''D'', Property Boolean [] None None None None None)])
            (Some [''a'', ''c'']) None None) \<and>
   map externalName
     (filter (\<lambda>f. explicitField f \<and> spec_required f = Some True)
        [StructField ''A'' False True [(''json'', ''a'')] TString,
         StructField ''B'' False True [(''json'', ''b,omitempty'')] TString,
         StructField ''C'' False True [(''json'', ''c,omitempty''), (''required'', ''true'')] TInt,
         StructField ''D'' False True [(''required'', ''false'')] TBool]) = [''a'', ''c''] \<and>
   spec_required (StructField ''E'' False True [(''required'', ''maybe'')] TString) = None \<and>
   isl (reflectSchemaByObject noFloat
          (TStruct ''pkg'' ''U'' ''pkg.U''
             [StructField ''E'' False True [(''required'', ''maybe'')] TString]))"
proof -
  let ?fs = "[StructField ''A'' False True [(''json'', ''a'')] TString,
         StructField ''B'' False True [(''json'', ''b,omitempty'')] TString,
         StructField ''C'' False True [(''json'', ''c,omitempty''), (''required'', ''true'')] TInt,
         StructField ''D'' False True [(''required'', ''false'')] TBool]"
  let ?p = "Property ObjectT [] None
            (Some [(''a'', Property String [] None None None None None),
                   (''b'', Property String [] None None None None None),
                   (''c'', Property Integer [] None None None None None),
                   (''D'', Property Boolean [] None None None None None)])
            (Some [''a'', ''c'']) None None :: unit Property"
  let ?e = "StructField ''E'' False True [(''required'', ''maybe'')] TString"
  have run: "reflectSchemaByObject noFloat (TStruct ''pkg'' ''T'' ''pkg.T'' ?fs) = Inr ?p"
    by (simp add: run_defs ParseBool_simps)
  have names: "\<forall>f \<in> set ?fs. CHR '','' \<notin> set (Name f)" by simp
  have bad: "spec_required ?e = None"
    by (simp add: spec_required_def Get_def ParseBool_simps)
  have expl: "explicitField ?e" by (simp add: explicitField_def Get_def)
  from required_list_membership [of noFloat "''pkg''" "''T''" "''pkg.T''" ?fs ?p] run names
  have "Required ?p =
        Some (map externalName
                (filter (\<lambda>f. explicitField f \<and> spec_required f = Some True) ?fs) @
              concat (map (\<lambda>f. entries (Required (projr (reflectSchemaByObject noFloat (FieldType f)))))
                        (filter embeddedField ?fs)))"
    by blast
  then have sel: "map externalName
     (filter (\<lambda>f. explicitField f \<and> spec_required f = Some True) ?fs) = [''a'', ''c'']"
    by (simp add: embeddedField_def)
  from required_list_membership [of noFloat "''pkg''" "''U''" "''pkg.U''" "[?e]" _ ?e] bad expl
  have "isl (reflectSchemaByObject noFloat (TStruct ''pkg'' ''U'' ''pkg.U'' [?e]))"
    by simp
  with run sel bad show ?thesis by blast
qed

section \<open>Conversion of enum and default literals\<close>

lemma enumValue_primitive:
  assumes "primitiveKind (KindOf ty)"
  shows "enumValue pf ty lit =
           (case spec_convert pf (KindOf ty) lit of
              Some v \<Rightarrow> Inr v
            | None \<Rightarrow> Inl (EnumNotCompatible lit (spec_target (KindOf ty)) ty))"
  using assms
  by (cases "KindOf ty")
     (simp_all add: enumValue_def spec_convert_def spec_target_def primitiveKind_def
        signedKind_def unsignedKind_def floatKind_def split: option.splits)

lemma enumValue_other:
  assumes "\<not> primitiveKind (KindOf ty)"
  shows "enumValue pf ty lit = Inl (EnumUnsupportedType ty)"
  using assms
  by (cases "KindOf ty")
     (simp_all add: enumValue_def primitiveKind_def signedKind_def unsignedKind_def
        floatKind_def)

lemma defaultValue_primitive:
  assumes "primitiveKind (KindOf ty)"
  shows "defaultValue pf ty lit =
           (case spec_convert pf (KindOf ty) lit of
              Some v \<Rightarrow> Inr v
            | None \<Rightarrow> Inl (DefaultNotCompatible lit (spec_target (KindOf ty)) ty))"
  using assms
  by (cases "KindOf ty")
     (simp_all add: defaultValue_def spec_convert_def spec_target_def primitiveKind_def
        signedKind_def unsignedKind_def floatKind_def split: option.splits)

lemma defaultValue_other:
  assumes "\<not> primitiveKind (KindOf ty)"
  shows "defaultValue pf ty lit = Inr (VString lit)"
  using assms
  by (cases "KindOf ty")
     (simp_all add: defaultValue_def primitiveKind_def signedKind_def unsignedKind_def
        floatKind_def)

lemma enumLoop_primitive:
  assumes "primitiveKind (KindOf ty)"
  shows "enumLoop pf ty vs =
           (case find (\<lambda>lit. spec_convert pf (KindOf ty) lit = None) (map TrimSpace vs) of
              None \<Rightarrow> Inr (map (\<lambda>lit. the (spec_convert pf (KindOf ty) lit)) (map TrimSpace vs))
            | Some lit \<Rightarrow> Inl (EnumNotCompatible lit (spec_target (KindOf ty)) ty))"
  by (induction vs) (auto simp: enumValue_primitive [OF assms] split: option.splits)

lemma Split_comma_nonempty: "Split_comma s \<noteq> []"
  by (induction s) (simp_all split: list.splits)

text \<open>
  \<open>Split_comma\<close> cuts at every comma and nowhere else: the pieces hold no
  comma, and joined with commas they give the text back.
\<close>

lemma Split_comma_pieces: "w \<in> set (Split_comma s) \<Longrightarrow> CHR '','' \<notin> set w"
proof (induction s arbitrary: w)
  case Nil
  then show ?case by simp
next
  case (Cons c cs)
  then show ?case
    by (cases "Split_comma cs") (auto split: if_splits)
qed

lemma Join_Split_comma: "Join_comma (Split_comma s) = s"
proof (induction s)
  case Nil
  then show ?case by simp
next
  case (Cons c cs)
  obtain w ws where split: "Split_comma cs = w # ws"
    using Split_comma_nonempty [of cs] by (cases "Split_comma cs") auto
  with Cons show ?case
    by (cases ws) (auto split: if_splits)
qed

lemma enumLoop_other:
  assumes "\<not> primitiveKind (KindOf ty)" and "vs \<noteq> []"
  shows "enumLoop pf ty vs = Inl (EnumUnsupportedType ty)"
  using assms by (cases vs) (simp_all add: enumValue_other)

lemma Atoi_examples:
  "Atoi ''1'' = Some 1" "Atoi ''2'' = Some 2" "Atoi ''3'' = Some 3" "Atoi ''x'' = None"
  by (simp_all add: Atoi_def ParseUint_def isDigit_def decimal_def)

lemma requiredTag_ok:
  assumes "spec_required f \<noteq> None"
  shows "\<exists>b'. requiredTag f j b = Inr b'"
  using assms
  by (auto simp: requiredTag_def spec_required_def Let_def split: option.splits if_splits)

text \<open>
  C5. On a field of a kind with a conversion rule, the loop over an enum tag
  returns the literals of the tag (split at commas, each trimmed), converted
  by the rule of the kind, in order; if some literal does not convert, it
  returns the error that names the first such literal, the target and the
  field type. When the loop body succeeds on a field with an enum tag, the
  kind has a rule and the property stored under the field's external name has
  exactly these values as its enum list. When a literal does not convert, the
  type reflects and the \<open>required\<close> tag is well formed, the body fails with
  that error.
\<close>

theorem enum_tag_conversion:
  "(primitiveKind (KindOf ty) \<longrightarrow>
      enumLoop pf ty (Split_comma v) =
        (case find (\<lambda>lit. spec_convert pf (KindOf ty) lit = None) (enumLiterals v) of
           None \<Rightarrow> Inr (map (\<lambda>lit. the (spec_convert pf (KindOf ty) lit)) (enumLiterals v))
         | Some lit \<Rightarrow> Inl (EnumNotCompatible lit (spec_target (KindOf ty)) ty))) \<and>
   (fieldBody pf f r props req = Inr (props', req') \<and> Get (Tag f) ''enum'' \<noteq> [] \<longrightarrow>
      primitiveKind (KindOf (FieldType f)) \<and>
      (\<exists>q. map_of props' (externalName f) = Some q \<and>
           Enum q = Some (map (\<lambda>lit. the (spec_convert pf (KindOf (FieldType f)) lit))
                            (enumLiterals (Get (Tag f) ''enum''))))) \<and>
   (primitiveKind (KindOf (FieldType f)) \<and> Get (Tag f) ''enum'' \<noteq> [] \<and>
    find (\<lambda>lit. spec_convert pf (KindOf (FieldType f)) lit = None)
      (enumLiterals (Get (Tag f) ''enum'')) = Some bad \<and>
    spec_required f \<noteq> None \<longrightarrow>
      fieldBody pf f (Inr item) props req =
        Inl (EnumNotCompatible bad (spec_target (KindOf (FieldType f))) (FieldType f)))"
proof (intro conjI impI)
  assume "primitiveKind (KindOf ty)"
  then show "enumLoop pf ty (Split_comma v) =
        (case find (\<lambda>lit. spec_convert pf (KindOf ty) lit = None) (enumLiterals v) of
           None \<Rightarrow> Inr (map (\<lambda>lit. the (spec_convert pf (KindOf ty) lit)) (enumLiterals v))
         | Some lit \<Rightarrow> Inl (EnumNotCompatible lit (spec_target (KindOf ty)) ty))"
    unfolding enumLiterals_def by (simp add: enumLoop_primitive)
next
  assume a: "fieldBody pf f r props req = Inr (props', req') \<and> Get (Tag f) ''enum'' \<noteq> []"
  then obtain item where r: "r = Inr item" by (cases r) simp_all
  let ?item0 = "if Get (Tag f) ''description'' \<noteq> []
                then set_Description (Get (Tag f) ''description'') item else item"
  from a r obtain item1 item2
    where e: "enumTag pf f ?item0 = Inr item1"
      and d: "defaultTag pf f item1 = Inr item2"
      and props': "props' = AList.update (externalName f) item2 props"
    by (auto simp: fieldBody_unfold split: sum.splits)
  from a e obtain vals
    where loop: "enumLoop pf (FieldType f) (Split_comma (Get (Tag f) ''enum'')) = Inr vals"
      and item1: "item1 = set_Enum vals ?item0"
    by (auto simp: enumTag_def Let_def split: sum.splits)
  show prim: "primitiveKind (KindOf (FieldType f))"
  proof (rule ccontr)
    assume "\<not> primitiveKind (KindOf (FieldType f))"
    then have "enumLoop pf (FieldType f) (Split_comma (Get (Tag f) ''enum'')) =
                 Inl (EnumUnsupportedType (FieldType f))"
      by (rule enumLoop_other) (rule Split_comma_nonempty)
    with loop show False by simp
  qed
  from loop enumLoop_primitive [OF prim, of pf "Split_comma (Get (Tag f) ''enum'')"]
  have vals: "vals = map (\<lambda>lit. the (spec_convert pf (KindOf (FieldType f)) lit))
                       (enumLiterals (Get (Tag f) ''enum''))"
    unfolding enumLiterals_def by (simp split: option.splits)
  from d item1 have "Enum item2 = Some vals"
    by (auto simp: defaultTag_def set_Enum_def set_Default_def Let_def
          split: sum.splits if_splits)
  with vals props'
  show "\<exists>q. map_of props' (externalName f) = Some q \<and>
           Enum q = Some (map (\<lambda>lit. the (spec_convert pf (KindOf (FieldType f)) lit))
                            (enumLiterals (Get (Tag f) ''enum'')))"
    by (simp add: update_conv')
next
  assume a: "primitiveKind (KindOf (FieldType f)) \<and> Get (Tag f) ''enum'' \<noteq> [] \<and>
    find (\<lambda>lit. spec_convert pf (KindOf (FieldType f)) lit = None)
      (enumLiterals (Get (Tag f) ''enum'')) = Some bad \<and>
    spec_required f \<noteq> None"
  then have "enumLoop pf (FieldType f) (Split_comma (Get (Tag f) ''enum'')) =
               Inl (EnumNotCompatible bad (spec_target (KindOf (FieldType f))) (FieldType f))"
    unfolding enumLiterals_def by (simp add: enumLoop_primitive)
  with a have "enumTag pf f x =
               Inl (EnumNotCompatible bad (spec_target (KindOf (FieldType f))) (FieldType f))"
    for x
    by (simp add: enumTag_def)
  moreover from a requiredTag_ok
  obtain b where "requiredTag f (externalName f)
             (\<not> HasSuffix (if Get (Tag f) ''json'' = [] then Name f else Get (Tag f) ''json'')
                   '',omitempty'') = Inr b"
    by blast
  ultimately show "fieldBody pf f (Inr item) props req =
        Inl (EnumNotCompatible bad (spec_target (KindOf (FieldType f))) (FieldType f))"
    by (simp add: fieldBody_unfold)
qed

text \<open>Trimming at work: ASCII blanks, and a no-break space (U+00A0, the bytes C2 A0).\<close>

lemma TrimSpace_examples:
  "TrimSpace ''1'' = ''1''" "TrimSpace '' 2'' = ''2''" "TrimSpace ''3 '' = ''3''"
  "TrimSpace ''x'' = ''x''" "TrimSpace ''3'' = ''3''"
  "TrimSpace [CHR ''1'', CHR 0xC2, CHR 0xA0] = ''1''"
  "TrimSpace [CHR 0xC2, CHR 0xA0, CHR ''2''] = ''2''"
  by (simp_all add: trimStop.simps TrimLeftFunc.simps TrimRightFunc_def lastIndexFunc.simps
        DecodeLastRuneInString_def DecodeRuneInString_def RuneStart_def IsSpace_def
        asciiSpace_def RuneError_def Let_def upt_rec [of _ "numeral n" for n])

theorem enum_tag_conversion_witness:
  "primitiveKind (KindOf TInt) \<and>
   enumLoop noFloat TInt (Split_comma ''1, 2,3 '') = Inr [VInt 1, VInt 2, VInt 3] \<and>
   enumLoop noFloat TInt (Split_comma ''1,x,3'') =
     Inl (EnumNotCompatible ''x'' IntegerType TInt) \<and>
   enumLoop noFloat TInt
     (Split_comma [CHR ''1'', CHR 0xC2, CHR 0xA0, CHR '','', CHR 0xC2, CHR 0xA0, CHR ''2'']) =
     Inr [VInt 1, VInt 2] \<and>
   reflectSchemaByObject noFloat
     (TStruct ''pkg'' ''T'' ''pkg.T''
        [StructField ''Level'' False True [(''json'', ''level''), (''enum'', ''1, 2,3 '')] TInt]) =
     Inr (Property ObjectT [] None
            (Some [(''level'',
                    Property Integer [] None None None (Some [VInt 1, VInt 2, VInt 3]) None)])
            (Some [''level'']) None None) \<and>
   reflectSchemaByObject noFloat
     (TStruct ''pkg'' ''T'' ''pkg.T''
        [StructField ''Level'' False True [(''json'', ''level''), (''enum'', ''1,x,3'')] TInt]) =
     Inl (EnumNotCompatible ''x'' IntegerType TInt)"
proof -
  let ?good = "StructField ''Level'' False True [(''json'', ''level''), (''enum'', ''1, 2,3 '')] TInt"
  let ?bad = "StructField ''Level'' False True [(''json'', ''level''), (''enum'', ''1,x,3'')] TInt"
  let ?nbsp = "[CHR ''1'', CHR 0xC2, CHR 0xA0, CHR '','', CHR 0xC2, CHR 0xA0, CHR ''2'']"
  have prim: "primitiveKind (KindOf TInt)"
    by (simp add: primitiveKind_def signedKind_def)
  have pieces: "Split_comma ''1, 2,3 '' = [''1'', '' 2'', ''3 '']"
    "Split_comma ''1,x,3'' = [''1'', ''x'', ''3'']"
    "Split_comma ?nbsp = [[CHR ''1'', CHR 0xC2, CHR 0xA0], [CHR 0xC2, CHR 0xA0, CHR ''2'']]"
    by simp_all
  have lits: "enumLiterals ''1, 2,3 '' = [''1'', ''2'', ''3'']"
    "enumLiterals ''1,x,3'' = [''1'', ''x'', ''3'']"
    "enumLiterals ?nbsp = [''1'', ''2'']"
    unfolding enumLiterals_def pieces by (simp_all only: list.map TrimSpace_examples)
  have conv: "spec_convert noFloat reflect_Int ''1'' = Some (VInt 1)"
    "spec_convert noFloat reflect_Int ''2'' = Some (VInt 2)"
    "spec_convert noFloat reflect_Int ''3'' = Some (VInt 3)"
    "spec_convert noFloat reflect_Int ''x'' = None"
    by (simp_all add: spec_convert_def signedKind_def Atoi_examples)
  have target: "spec_target reflect_Int = IntegerType"
    by (simp add: spec_target_def signedKind_def)
  from enum_tag_conversion [of TInt noFloat "''1, 2,3 ''"] prim
  have good: "enumLoop noFloat TInt (Split_comma ''1, 2,3 '') = Inr [VInt 1, VInt 2, VInt 3]"
    by (simp add: lits conv)
  from enum_tag_conversion [of TInt noFloat "''1,x,3''"] prim
  have bad: "enumLoop noFloat TInt (Split_comma ''1,x,3'') =
               Inl (EnumNotCompatible ''x'' IntegerType TInt)"
    by (simp add: lits conv target)
  from enum_tag_conversion [of TInt noFloat ?nbsp] prim
  have nbsp: "enumLoop noFloat TInt (Split_comma ?nbsp) = Inr [VInt 1, VInt 2]"
    by (simp add: lits conv)
  have run_good: "reflectSchemaByObject noFloat (TStruct ''pkg'' ''T'' ''pkg.T'' [?good]) =
     Inr (Property ObjectT [] None
            (Some [(''level'',
                    Property Integer [] None None None (Some [VInt 1, VInt 2, VInt 3]) None)])
            (Some [''level'']) None None)"
    by (simp add: run_defs trimStop.simps asciiSpace_def enumValue_def Atoi_examples)
  have run_bad: "reflectSchemaByObject noFloat (TStruct ''pkg'' ''T'' ''pkg.T'' [?bad]) =
     Inl (EnumNotCompatible ''x'' IntegerType TInt)"
    by (simp add: run_defs trimStop.simps asciiSpace_def enumValue_def Atoi_examples)
  from prim good bad nbsp run_good run_bad show ?thesis by blast
qed

text \<open>
  C8. The default literal is converted by the same per-kind rule as an enum
  literal (\<open>spec_convert\<close>), a literal that does not convert giving the
  error that names it, the target and the field type; on a kind without a
  rule (an array, a slice, a struct, a map, a pointer) the text of the tag is
  kept as a string and the conversion cannot fail. When the loop body
  succeeds on a field with a default tag, the property stored under the
  field's external name has the converted value as its default. On a field of
  a kind without a rule, with no enum tag, whose type reflects and whose
  \<open>required\<close> tag is well formed, the body succeeds whatever the default tag
  holds.
\<close>

theorem default_tag_conversion:
  "(primitiveKind (KindOf ty) \<longrightarrow>
      defaultValue pf ty d =
        (case spec_convert pf (KindOf ty) d of
           Some v \<Rightarrow> Inr v
         | None \<Rightarrow> Inl (DefaultNotCompatible d (spec_target (KindOf ty)) ty)) \<and>
      enumValue pf ty d =
        (case spec_convert pf (KindOf ty) d of
           Some v \<Rightarrow> Inr v
         | None \<Rightarrow> Inl (EnumNotCompatible d (spec_target (KindOf ty)) ty))) \<and>
   (\<not> primitiveKind (KindOf ty) \<longrightarrow> defaultValue pf ty d = Inr (VString d)) \<and>
   (fieldBody pf f r props req = Inr (props', req') \<and> Get (Tag f) ''default'' \<noteq> [] \<longrightarrow>
      (\<exists>q v. map_of props' (externalName f) = Some q \<and>
             defaultValue pf (FieldType f) (Get (Tag f) ''default'') = Inr v \<and>
             Default q = Some v)) \<and>
   (\<not> primitiveKind (KindOf (FieldType f)) \<and> Get (Tag f) ''enum'' = [] \<and>
    Get (Tag f) ''default'' \<noteq> [] \<and> spec_required f \<noteq> None \<longrightarrow>
      (\<exists>props1 req1 q.
          fieldBody pf f (Inr item) props req = Inr (props1, req1) \<and>
          map_of props1 (externalName f) = Some q \<and>
          Default q = Some (VString (Get (Tag f) ''default''))))"
proof (intro conjI impI)
  assume "primitiveKind (KindOf ty)"
  then show "defaultValue pf ty d =
        (case spec_convert pf (KindOf ty) d of
           Some v \<Rightarrow> Inr v
         | None \<Rightarrow> Inl (DefaultNotCompatible d (spec_target (KindOf ty)) ty))"
    and "enumValue pf ty d =
        (case spec_convert pf (KindOf ty) d of
           Some v \<Rightarrow> Inr v
         | None \<Rightarrow> Inl (EnumNotCompatible d (spec_target (KindOf ty)) ty))"
    by (simp_all add: defaultValue_primitive enumValue_primitive)
next
  assume "\<not> primitiveKind (KindOf ty)"
  then show "defaultValue pf ty d = Inr (VString d)" by (rule defaultValue_other)
next
  assume a: "fieldBody pf f r props req = Inr (props', req') \<and> Get (Tag f) ''default'' \<noteq> []"
  then obtain item where r: "r = Inr item" by (cases r) simp_all
  from a r obtain item1 item2
    where d: "defaultTag pf f item1 = Inr item2"
      and props': "props' = AList.update (externalName f) item2 props"
    by (auto simp: fieldBody_unfold split: sum.splits)
  from a d obtain v
    where "defaultValue pf (FieldType f) (Get (Tag f) ''default'') = Inr v"
      and "item2 = set_Default v item1"
    by (auto simp: defaultTag_def Let_def split: sum.splits)
  with props'
  show "\<exists>q v. map_of props' (externalName f) = Some q \<and>
             defaultValue pf (FieldType f) (Get (Tag f) ''default'') = Inr v \<and>
             Default q = Some v"
    by (simp add: update_conv' set_Default_def)
next
  assume a: "\<not> primitiveKind (KindOf (FieldType f)) \<and> Get (Tag f) ''enum'' = [] \<and>
    Get (Tag f) ''default'' \<noteq> [] \<and> spec_required f \<noteq> None"
  then have dv: "defaultValue pf (FieldType f) (Get (Tag f) ''default'') =
                   Inr (VString (Get (Tag f) ''default''))"
    by (simp add: defaultValue_other)
  from a requiredTag_ok
  obtain b where "requiredTag f (externalName f)
             (\<not> HasSuffix (if Get (Tag f) ''json'' = [] then Name f else Get (Tag f) ''json'')
                   '',omitempty'') = Inr b"
    by blast
  with a dv
  show "\<exists>props1 req1 q.
          fieldBody pf f (Inr item) props req = Inr (props1, req1) \<and>
          map_of props1 (externalName f) = Some q \<and>
          Default q = Some (VString (Get (Tag f) ''default''))"
    by (simp add: fieldBody_unfold enumTag_def defaultTag_def update_conv' set_Default_def)
qed

lemma Atoi_more_examples:
  "Atoi ''42'' = Some 42" "Atoi ''4x'' = None"
  by (simp_all add: Atoi_def ParseUint_def isDigit_def decimal_def)

theorem default_tag_conversion_witness:
  "primitiveKind (KindOf TInt) \<and>
   defaultValue noFloat TInt ''42'' = Inr (VInt 42) \<and>
   defaultValue noFloat TInt ''4x'' = Inl (DefaultNotCompatible ''4x'' IntegerType TInt) \<and>
   \<not> primitiveKind (KindOf (TSlice TString)) \<and>
   defaultValue noFloat (TSlice TString) ''a,b'' = Inr (VString ''a,b'') \<and>
   reflectSchemaByObject noFloat
     (TStruct ''pkg'' ''T'' ''pkg.T''
        [StructField ''Tags'' False True [(''default'', ''a,b'')] (TSlice TString),
         StructField ''Opts'' False True [(''default'', ''{}'')] (TMap TString TInt),
         StructField ''Size'' False True [(''default'', ''42'')] TInt]) =
     Inr (Property ObjectT [] None
            (Some [(''Tags'',
                    Property Array [] (Some (Property String [] None None None None None))
                      None None None (Some (VString ''a,b''))),
                   (''Opts'',
                    Property ObjectT [] None None None None (Some (VString ''{}''))),
                   (''Size'',
                    Property Integer [] None None None None (Some (VInt 42)))])
            (Some [''Tags'', ''Opts'', ''Size'']) None None)"
proof -
  have prim: "primitiveKind (KindOf TInt)" "\<not> primitiveKind (KindOf (TSlice TString))"
    by (simp_all add: primitiveKind_def signedKind_def unsignedKind_def floatKind_def)
  have conv: "spec_convert noFloat reflect_Int ''42'' = Some (VInt 42)"
    "spec_convert noFloat reflect_Int ''4x'' = None"
    by (simp_all add: spec_convert_def signedKind_def Atoi_more_examples)
  have target: "spec_target reflect_Int = IntegerType"
    by (simp add: spec_target_def signedKind_def)
  from default_tag_conversion [of TInt noFloat "''42''"] prim conv
  have d1: "defaultValue noFloat TInt ''42'' = Inr (VInt 42)" by simp
  from default_tag_conversion [of TInt noFloat "''4x''"] prim conv target
  have d2: "defaultValue noFloat TInt ''4x'' = Inl (DefaultNotCompatible ''4x'' IntegerType TInt)"
    by simp
  from default_tag_conversion [of "TSlice TString" noFloat "''a,b''"] prim
  have d3: "defaultValue noFloat (TSlice TString) ''a,b'' = Inr (VString ''a,b'')" by simp
  have run: "reflectSchemaByObject noFloat
     (TStruct ''pkg'' ''T'' ''pkg.T''
        [StructField ''Tags'' False True [(''default'', ''a,b'')] (TSlice TString),
         StructField ''Opts'' False True [(''default'', ''{}'')] (TMap TString TInt),
         StructField ''Size'' False True [(''default'', ''42'')] TInt]) =
     Inr (Property ObjectT [] None
            (Some [(''Tags'',
                    Property Array [] (Some (Property String [] None None None None None))
                      None None None (Some (VString ''a,b''))),
                   (''Opts'',
                    Property ObjectT [] None None None None (Some (VString ''{}''))),
                   (''Size'',
                    Property Integer [] None None None None (Some (VInt 42)))])
            (Some [''Tags'', ''Opts'', ''Size'']) None None)"
    by (simp add: run_defs defaultValue_def Atoi_more_examples)
  from prim d1 d2 d3 run show ?thesis by blast
qed

section \<open>An enum tag on a kind without a conversion rule\<close>

lemma fieldBody_enum_other_isl:
  assumes "Get (Tag f) ''enum'' \<noteq> []" and "\<not> primitiveKind (KindOf (FieldType f))"
  shows "isl (fieldBody pf f r props req)"
proof (cases r)
  case (Inl err)
  then show ?thesis by simp
next
  case (Inr item)
  from assms have "enumTag pf f x = Inl (EnumUnsupportedType (FieldType f))" for x
    by (simp add: enumTag_def enumLoop_other Split_comma_nonempty)
  with Inr show ?thesis by (simp add: fieldBody_unfold split: sum.splits)
qed

lemma fieldBody_enum_other:
  assumes "Get (Tag f) ''enum'' \<noteq> []" and "\<not> primitiveKind (KindOf (FieldType f))"
    and "spec_required f \<noteq> None"
  shows "fieldBody pf f (Inr item) props req = Inl (EnumUnsupportedType (FieldType f))"
proof -
  from assms have "enumTag pf f x = Inl (EnumUnsupportedType (FieldType f))" for x
    by (simp add: enumTag_def enumLoop_other Split_comma_nonempty)
  moreover from assms(3) requiredTag_ok
  obtain b where "requiredTag f (externalName f)
             (\<not> HasSuffix (if Get (Tag f) ''json'' = [] then Name f else Get (Tag f) ''json'')
                   '',omitempty'') = Inr b"
    by blast
  ultimately show ?thesis by (simp add: fieldBody_unfold)
qed

lemma objectBody_Inr_fieldLoop:
  assumes "objectBody pf rfs = Inr p"
  shows "\<exists>props req anon. fieldLoop pf rfs [] [] [] = Inr (props, req, anon)"
  using assms by (auto simp: objectBody_def split: sum.splits)

text \<open>
  C10. An explicit field with a non-empty enum tag whose type is of a kind
  without a conversion rule makes the derivation of its struct fail, wherever
  the field stands. The error is the unsupported-type-for-enum error, with the
  field's type, when the failure is that of the enum tag: the fields before it
  derive, the type of the field reflects and its \<open>required\<close> tag is well
  formed. The kind is that of the declared type itself: a pointer to a string
  reflects as a string and still has no rule.
\<close>

theorem enum_on_unconvertible_kind:
  "(explicitField f \<and> Get (Tag f) ''enum'' \<noteq> [] \<and> \<not> primitiveKind (KindOf (FieldType f)) \<longrightarrow>
      isl (reflectSchemaByObject pf (TStruct pk nm st (pre @ f # post)))) \<and>
   (explicitField f \<and> Get (Tag f) ''enum'' \<noteq> [] \<and> \<not> primitiveKind (KindOf (FieldType f)) \<and>
    reflectSchemaByType pf (FieldType f) = Inr item \<and> spec_required f \<noteq> None \<and>
    reflectSchemaByObject pf (TStruct pk nm st pre) = Inr p0 \<longrightarrow>
      reflectSchemaByObject pf (TStruct pk nm st (pre @ f # post)) =
        Inl (EnumUnsupportedType (FieldType f)))"
proof (intro conjI impI)
  assume a: "explicitField f \<and> Get (Tag f) ''enum'' \<noteq> [] \<and>
             \<not> primitiveKind (KindOf (FieldType f))"
  then have "isl (fieldBody pf f (reflectSchemaByType pf (FieldType f)) [] [])"
    by (simp add: fieldBody_enum_other_isl)
  moreover have "(f, reflectSchemaByType pf (FieldType f), reflectSchemaByObject pf (FieldType f))
                   \<in> set (reflectFields pf (pre @ f # post))"
    by (rule reflectFields_member) simp
  ultimately have "isl (objectBody pf (reflectFields pf (pre @ f # post)))"
    using a by (blast intro: objectBody_fails)
  then show "isl (reflectSchemaByObject pf (TStruct pk nm st (pre @ f # post)))"
    by (simp add: reflectSchemaByObject_struct del: reflectSchemaByObject.simps)
next
  assume a: "explicitField f \<and> Get (Tag f) ''enum'' \<noteq> [] \<and>
    \<not> primitiveKind (KindOf (FieldType f)) \<and>
    reflectSchemaByType pf (FieldType f) = Inr item \<and> spec_required f \<noteq> None \<and>
    reflectSchemaByObject pf (TStruct pk nm st pre) = Inr p0"
  then have "objectBody pf (reflectFields pf pre) = Inr p0"
    by (simp add: reflectSchemaByObject_struct del: reflectSchemaByObject.simps)
  from objectBody_Inr_fieldLoop [OF this] obtain props req anon
    where pre: "fieldLoop pf (reflectFields pf pre) [] [] [] = Inr (props, req, anon)"
    by blast
  from a have body: "fieldBody pf f (Inr item) props req = Inl (EnumUnsupportedType (FieldType f))"
    by (simp add: fieldBody_enum_other)
  from a have step: "fieldLoop pf (reflectFields pf (f # post)) props req anon =
                 Inl (EnumUnsupportedType (FieldType f))"
    by (simp add: reflectFields_def explicitField_def body)
  have "objectBody pf (reflectFields pf (pre @ f # post)) =
          Inl (EnumUnsupportedType (FieldType f))"
    by (simp add: objectBody_def reflectFields_append fieldLoop_append pre step)
  then show "reflectSchemaByObject pf (TStruct pk nm st (pre @ f # post)) =
        Inl (EnumUnsupportedType (FieldType f))"
    by (simp add: reflectSchemaByObject_struct del: reflectSchemaByObject.simps)
qed

theorem enum_on_unconvertible_kind_witness:
  "explicitField (StructField ''Name'' False True [(''enum'', ''a,b'')] (TPtr TString)) \<and>
   \<not> primitiveKind (KindOf (TPtr TString)) \<and>
   reflectSchemaByType noFloat (TPtr TString) =
     Inr (Property String [] None None None None None) \<and>
   reflectSchemaByObject noFloat
     (TStruct ''pkg'' ''T'' ''pkg.T''
        ([StructField ''ID'' False True [] TInt] @
         StructField ''Name'' False True [(''enum'', ''a,b'')] (TPtr TString) # [])) =
     Inl (EnumUnsupportedType (TPtr TString)) \<and>
   reflectSchemaByObject noFloat
     (TStruct ''pkg'' ''T'' ''pkg.T''
        [StructField ''ID'' False True [] TInt,
         StructField ''Name'' False True [] (TPtr TString)]) =
     Inr (Property ObjectT [] None
            (Some [(''ID'', Property Integer [] None None None None None),
                   (''Name'', Property String [] None None None None None)])
            (Some [''ID'', ''Name'']) None None)"
proof -
  let ?f = "StructField ''Name'' False True [(''enum'', ''a,b'')] (TPtr TString)"
  let ?pre = "[StructField ''ID'' False True [] TInt]"
  let ?p0 = "Property ObjectT [] None
            (Some [(''ID'', Property Integer [] None None None None None)])
            (Some [''ID'']) None None :: unit Property"
  have e: "explicitField ?f" by (simp add: explicitField_def Get_def)
  have t: "Get (Tag ?f) ''enum'' \<noteq> []" by (simp add: Get_def)
  have k: "\<not> primitiveKind (KindOf (FieldType ?f))"
    by (simp add: primitiveKind_def signedKind_def unsignedKind_def floatKind_def)
  have r: "reflectSchemaByType noFloat (FieldType ?f) =
             Inr (Property String [] None None None None None)"
    by (simp add: bare_def)
  have q: "spec_required ?f \<noteq> None" by (simp add: spec_required_def Get_def)
  have p: "reflectSchemaByObject noFloat (TStruct ''pkg'' ''T'' ''pkg.T'' ?pre) = Inr ?p0"
    by (simp add: run_defs)
  from enum_on_unconvertible_kind
    [of ?f noFloat "''pkg''" "''T''" "''pkg.T''" ?pre "[]"
        "Property String [] None None None None None" ?p0] e t k r q p
  have fails: "reflectSchemaByObject noFloat (TStruct ''pkg'' ''T'' ''pkg.T'' (?pre @ ?f # [])) =
        Inl (EnumUnsupportedType (FieldType ?f))"
    by blast
  have ok: "reflectSchemaByObject noFloat
     (TStruct ''pkg'' ''T'' ''pkg.T''
        [StructField ''ID'' False True [] TInt,
         StructField ''Name'' False True [] (TPtr TString)]) =
     Inr (Property ObjectT [] None
            (Some [(''ID'', Property Integer [] None None None None None),
                   (''Name'', Property String [] None None None None None)])
            (Some [''ID'', ''Name'']) None None)"
    by (simp add: run_defs)
  from e k r fails ok show ?thesis by simp
qed

section \<open>Embedded fields\<close>

lemma embeddedField_eq: "embeddedField = Anonymous"
  by (simp add: embeddedField_def fun_eq_iff)

lemma declaredField_eq: "declaredField = (\<lambda>f. \<not> Anonymous f)"
  by (simp add: declaredField_def fun_eq_iff)

lemma reflectFields_Nil: "reflectFields pf [] = []"
  by (simp add: reflectFields_def)

lemma reflectFields_declared:
  "filter (\<lambda>r. \<not> Anonymous (fst r)) (reflectFields pf fs) = reflectFields pf (filter declaredField fs)"
  using reflectFields_filter [of "\<lambda>f. \<not> Anonymous f" pf fs] by (simp add: declaredField_eq)

lemma reflectFields_embedded:
  "filter (\<lambda>r. Anonymous (fst r)) (reflectFields pf fs) = reflectFields pf (filter embeddedField fs)"
  using reflectFields_filter [of Anonymous pf fs] by (simp add: embeddedField_eq)

text \<open>The object body is the first loop on the declared fields, then the second on the embedded ones.\<close>

lemma objectBody_split:
  "objectBody pf (reflectFields pf fs) =
     (case fieldLoop pf (reflectFields pf (filter declaredField fs)) [] [] [] of
        Inl err \<Rightarrow> Inl err
      | Inr (props, req, anon) \<Rightarrow>
          (case anonymousLoop (reflectFields pf (filter embeddedField fs)) props req of
             Inl err \<Rightarrow> Inl err
           | Inr (props', req') \<Rightarrow>
               Inr (Property ObjectT [] None (Some props') (Some req') None None)))"
proof -
  have "fieldLoop pf (reflectFields pf fs) [] [] [] =
          (case fieldLoop pf (reflectFields pf (filter declaredField fs)) [] [] [] of
             Inl err \<Rightarrow> Inl err
           | Inr (props, req, anon) \<Rightarrow>
               Inr (props, req, reflectFields pf (filter embeddedField fs)))"
    using fieldLoop_anonymous [of pf "reflectFields pf fs" "[]" "[]" "[]"]
    by (simp add: reflectFields_declared reflectFields_embedded split: sum.splits)
  then show ?thesis
    by (simp add: objectBody_def split: sum.splits)
qed

lemma filter_declared_embedded [simp]:
  "filter (\<lambda>f. embeddedField f \<and> declaredField f) fs = []"
  "filter (\<lambda>f. declaredField f \<and> embeddedField f) fs = []"
  by (induction fs) (simp_all add: declaredField_def embeddedField_def)

lemma objectBody_declared:
  "objectBody pf (reflectFields pf (filter declaredField fs)) =
     (case fieldLoop pf (reflectFields pf (filter declaredField fs)) [] [] [] of
        Inl err \<Rightarrow> Inl err
      | Inr (props, req, anon) \<Rightarrow>
          Inr (Property ObjectT [] None (Some props) (Some req) None None))"
  using objectBody_split [of pf "filter declaredField fs"]
  by (auto simp: reflectFields_Nil split: sum.splits)

lemma anonymousLoop_all_Inr:
  "anonymousLoop rfs props req = Inr (props', req') \<Longrightarrow>
     map (\<lambda>r. snd (snd r)) rfs = map (\<lambda>r. Inr (projr (snd (snd r)))) rfs"
  by (induction rfs props req rule: anonymousLoop.induct) (auto split: sum.splits)

lemma anonymousLoop_map_of:
  "anonymousLoop rfs props req = Inr (props', req') \<Longrightarrow>
     map_of props' =
       foldl (++) (map_of props)
         (map (\<lambda>r. map_of (entries (Properties (projr (snd (snd r)))))) rfs)"
  by (induction rfs props req rule: anonymousLoop.induct)
     (auto split: sum.splits dest: mergeLoop_map_of)

lemma objectBody_reorder:
  "objectBody pf (reflectFields pf (filter declaredField fs @ filter embeddedField fs)) =
   objectBody pf (reflectFields pf fs)"
proof -
  have decl: "filter declaredField (filter declaredField fs @ filter embeddedField fs) =
                filter declaredField fs"
    and emb: "filter embeddedField (filter declaredField fs @ filter embeddedField fs) =
                filter embeddedField fs"
    by simp_all
  show ?thesis unfolding objectBody_split decl emb by (rule refl)
qed

text \<open>
  C2. The embedded fields are processed after all the others: a struct
  derives what it derives with its embedded fields moved behind the declared
  ones, both groups in declaration order. When the derivation succeeds, the
  declared fields alone derive an object \<open>p0\<close>, every embedded field's type
  reflects as an object (\<open>os\<close>, in declaration order), the property set is
  that of \<open>p0\<close> with the property sets of \<open>os\<close> merged in, one after the
  other, and the required list is that of \<open>p0\<close> followed by the required
  lists of \<open>os\<close>.
\<close>

theorem embedded_fields_deferred_and_merged:
  "reflectSchemaByObject pf (TStruct pk nm st fs) =
     reflectSchemaByObject pf
       (TStruct pk nm st (filter declaredField fs @ filter embeddedField fs)) \<and>
   (reflectSchemaByObject pf (TStruct pk nm st fs) = Inr p \<longrightarrow>
      (\<exists>p0 os.
          reflectSchemaByObject pf (TStruct pk nm st (filter declaredField fs)) = Inr p0 \<and>
          map (\<lambda>f. reflectSchemaByObject pf (FieldType f)) (filter embeddedField fs) =
            map Inr os \<and>
          map_of (entries (Properties p)) =
            foldl (++) (map_of (entries (Properties p0)))
              (map (\<lambda>object. map_of (entries (Properties object))) os) \<and>
          Required p =
            Some (entries (Required p0) @ concat (map (\<lambda>object. entries (Required object)) os))))"
proof (intro conjI impI)
  show "reflectSchemaByObject pf (TStruct pk nm st fs) =
     reflectSchemaByObject pf
       (TStruct pk nm st (filter declaredField fs @ filter embeddedField fs))"
    by (simp only: reflectSchemaByObject_struct objectBody_reorder)
next
  assume "reflectSchemaByObject pf (TStruct pk nm st fs) = Inr p"
  then have "objectBody pf (reflectFields pf fs) = Inr p"
    by (simp only: reflectSchemaByObject_struct)
  then obtain props req anon props' req'
    where loop1: "fieldLoop pf (reflectFields pf (filter declaredField fs)) [] [] [] =
                    Inr (props, req, anon)"
      and loop2: "anonymousLoop (reflectFields pf (filter embeddedField fs)) props req =
                    Inr (props', req')"
      and p: "p = Property ObjectT [] None (Some props') (Some req') None None"
    by (auto simp: objectBody_split split: sum.splits)
  let ?p0 = "Property ObjectT [] None (Some props) (Some req) None None"
  let ?os = "map (\<lambda>f. projr (reflectSchemaByObject pf (FieldType f))) (filter embeddedField fs)"
  have p0: "reflectSchemaByObject pf (TStruct pk nm st (filter declaredField fs)) = Inr ?p0"
    by (simp only: reflectSchemaByObject_struct objectBody_declared) (simp add: loop1)
  from anonymousLoop_all_Inr [OF loop2]
  have os: "map (\<lambda>f. reflectSchemaByObject pf (FieldType f)) (filter embeddedField fs) =
              map Inr ?os"
    by (simp add: reflectFields_def comp_def)
  from anonymousLoop_map_of [OF loop2] p
  have props: "map_of (entries (Properties p)) =
            foldl (++) (map_of (entries (Properties ?p0)))
              (map (\<lambda>object. map_of (entries (Properties object))) ?os)"
    by (simp add: reflectFields_def comp_def entries_def)
  from anonymousLoop_required [OF loop2] p
  have reqs: "Required p =
            Some (entries (Required ?p0) @ concat (map (\<lambda>object. entries (Required object)) ?os))"
    by (simp add: reflectFields_def comp_def entries_def)
  from p0 os props reqs
  show "\<exists>p0 os.
          reflectSchemaByObject pf (TStruct pk nm st (filter declaredField fs)) = Inr p0 \<and>
          map (\<lambda>f. reflectSchemaByObject pf (FieldType f)) (filter embeddedField fs) =
            map Inr os \<and>
          map_of (entries (Properties p)) =
            foldl (++) (map_of (entries (Properties p0)))
              (map (\<lambda>object. map_of (entries (Properties object))) os) \<and>
          Required p =
            Some (entries (Required p0) @ concat (map (\<lambda>object. entries (Required object)) os))"
    by blast
qed

theorem embedded_fields_deferred_and_merged_witness:
  "reflectSchemaByObject noFloat
     (TStruct ''pkg'' ''T'' ''pkg.T''
        [StructField ''Base'' True True []
           (TStruct ''pkg'' ''Base'' ''pkg.Base''
              [StructField ''ID'' False True [(''json'', ''id'')] TString,
               StructField ''Note'' False True [(''json'', ''note,omitempty'')] TString]),
         StructField ''Name'' False True [(''json'', ''name'')] TString]) =
     Inr (Property ObjectT [] None
            (Some [(''name'', Property String [] None None None None None),
                   (''id'', Property String [] None None None None None),
                   (''note'', Property String [] None None None None None)])
            (Some [''name'', ''id'']) None None) \<and>
   reflectSchemaByObject noFloat
     (TStruct ''pkg'' ''T'' ''pkg.T''
        [StructField ''Name'' False True [(''json'', ''name'')] TString,
         StructField ''Base'' True True []
           (TStruct ''pkg'' ''Base'' ''pkg.Base''
              [StructField ''ID'' False True [(''json'', ''id'')] TString,
               StructField ''Note'' False True [(''json'', ''note,omitempty'')] TString])]) =
     Inr (Property ObjectT [] None
            (Some [(''name'', Property String [] None None None None None),
                   (''id'', Property String [] None None None None None),
                   (''note'', Property String [] None None None None None)])
            (Some [''name'', ''id'']) None None) \<and>
   reflectSchemaByObject noFloat
     (TStruct ''pkg'' ''T'' ''pkg.T''
        [StructField ''Name'' False True [(''json'', ''name'')] TString]) =
     Inr (Property ObjectT [] None
            (Some [(''name'', Property String [] None None None None None)])
            (Some [''name'']) None None) \<and>
   reflectSchemaByObject noFloat
     (TStruct ''pkg'' ''Base'' ''pkg.Base''
        [StructField ''ID'' False True [(''json'', ''id'')] TString,
         StructField ''Note'' False True [(''json'', ''note,omitempty'')] TString]) =
     Inr (Property ObjectT [] None
            (Some [(''id'', Property String [] None None None None None),
                   (''note'', Property String [] None None None None None)])
            (Some [''id'']) None None)"
proof -
  let ?base = "TStruct ''pkg'' ''Base'' ''pkg.Base''
              [StructField ''ID'' False True [(''json'', ''id'')] TString,
               StructField ''Note'' False True [(''json'', ''note,omitempty'')] TString]"
  let ?name = "StructField ''Name'' False True [(''json'', ''name'')] TString"
  let ?fs = "[StructField ''Base'' True True [] ?base, ?name]"
  have run: "reflectSchemaByObject noFloat (TStruct ''pkg'' ''T'' ''pkg.T'' ?fs) =
     Inr (Property ObjectT [] None
            (Some [(''name'', Property String [] None None None None None),
                   (''id'', Property String [] None None None None None),
                   (''note'', Property String [] None None None None None)])
            (Some [''name'', ''id'']) None None)"
    by (simp add: run_defs)
  have order: "filter declaredField ?fs @ filter embeddedField ?fs =
                 [?name, StructField ''Base'' True True [] ?base]"
    by (simp add: declaredField_def embeddedField_def)
  from embedded_fields_deferred_and_merged [of noFloat "''pkg''" "''T''" "''pkg.T''" ?fs]
  have moved: "reflectSchemaByObject noFloat (TStruct ''pkg'' ''T'' ''pkg.T'' ?fs) =
          reflectSchemaByObject noFloat
            (TStruct ''pkg'' ''T'' ''pkg.T'' [?name, StructField ''Base'' True True [] ?base])"
    unfolding order by blast
  have declared: "reflectSchemaByObject noFloat (TStruct ''pkg'' ''T'' ''pkg.T'' [?name]) =
     Inr (Property ObjectT [] None
            (Some [(''name'', Property String [] None None None None None)])
            (Some [''name'']) None None)"
    by (simp add: run_defs)
  have base: "reflectSchemaByObject noFloat ?base =
     Inr (Property ObjectT [] None
            (Some [(''id'', Property String [] None None None None None),
                   (''note'', Property String [] None None None None None)])
            (Some [''id'']) None None)"
    by (simp add: run_defs)
  from run moved declared base show ?thesis by simp
qed

section \<open>Fields without external visibility\<close>

lemma objectBody_append_skip:
  assumes "\<not> IsExported f" "\<not> Anonymous f"
  shows "objectBody pf (xs @ (f, a, b) # ys) = objectBody pf (xs @ ys)"
  using assms by (simp add: objectBody_def fieldLoop_append split: sum.splits)

text \<open>The second loop reads of an embedded field only what its type reflects to.\<close>

lemma anonymousLoop_cong:
  "map (\<lambda>r. snd (snd r)) rfs = map (\<lambda>r. snd (snd r)) rfs' \<Longrightarrow>
     anonymousLoop rfs props req = anonymousLoop rfs' props req"
proof (induction rfs props req arbitrary: rfs' rule: anonymousLoop.induct)
  case (1 properties requiredFields)
  then show ?case by simp
next
  case (2 field byType byObject rest properties requiredFields)
  from "2.prems" obtain field' byType' rest' where rfs': "rfs' = (field', byType', byObject) # rest'"
    and rest: "map (\<lambda>r. snd (snd r)) rest = map (\<lambda>r. snd (snd r)) rest'"
    by (cases rfs') auto
  show ?case
  proof (cases byObject)
    case (Inl err)
    then show ?thesis by (simp add: rfs')
  next
    case (Inr object)
    show ?thesis
    proof (cases "mergeLoop (entries (Properties object)) properties")
      case (Inl err)
      with Inr show ?thesis by (simp add: rfs')
    next
      case merged: (Inr properties')
      from "2.IH" [OF Inr merged rest] Inr merged show ?thesis by (simp add: rfs')
    qed
  qed
qed

text \<open>
  Of an embedded field the derivation reads the type alone, neither the name
  nor the tags nor whether it is exported: two embedded fields of one type in
  the same place give the same result.
\<close>

lemma embedded_field_type_only:
  assumes "Anonymous f" and "Anonymous g" and "FieldType f = FieldType g"
  shows "reflectSchemaByObject pf (TStruct pk nm st (pre @ f # post)) =
         reflectSchemaByObject pf (TStruct pk nm st (pre @ g # post))"
proof -
  from assms have decl: "filter declaredField (pre @ f # post) = filter declaredField (pre @ g # post)"
    by (simp add: declaredField_def)
  from assms
  have "map (\<lambda>r. snd (snd r)) (reflectFields pf (filter embeddedField (pre @ f # post))) =
        map (\<lambda>r. snd (snd r)) (reflectFields pf (filter embeddedField (pre @ g # post)))"
    by (simp add: embeddedField_def reflectFields_def)
  then have loop2: "anonymousLoop (reflectFields pf (filter embeddedField (pre @ f # post))) =
                    anonymousLoop (reflectFields pf (filter embeddedField (pre @ g # post)))"
    by (intro ext) (rule anonymousLoop_cong)
  have "objectBody pf (reflectFields pf (pre @ f # post)) =
        objectBody pf (reflectFields pf (pre @ g # post))"
    unfolding objectBody_split decl loop2 by (rule refl)
  then show ?thesis by (simp only: reflectSchemaByObject_struct)
qed

text \<open>
  C1, as amended. A field that is not exported and not embedded is skipped
  entirely: the struct derives exactly what it derives without the field,
  the same property set and required list or the same error, whatever the
  field's type and tags are.
\<close>

theorem unexported_declared_field_skipped:
  assumes "\<not> IsExported f" and "\<not> Anonymous f"
  shows "reflectSchemaByObject pf (TStruct pk nm st (pre @ f # post)) =
         reflectSchemaByObject pf (TStruct pk nm st (pre @ post))"
  using assms
  by (simp add: reflectSchemaByObject_struct reflectFields_append objectBody_append_skip
        reflectFields_def del: reflectSchemaByObject.simps)

theorem unexported_declared_field_skipped_witness:
  "\<not> IsExported (StructField ''secret'' False False [(''enum'', ''x'')] TChan) \<and>
   \<not> Anonymous (StructField ''secret'' False False [(''enum'', ''x'')] TChan) \<and>
   reflectSchemaByObject noFloat
     (TStruct ''pkg'' ''T'' ''pkg.T''
        ([StructField ''ID'' False True [] TInt] @
         StructField ''secret'' False False [(''enum'', ''x'')] TChan # [])) =
     Inr (Property ObjectT [] None
            (Some [(''ID'', Property Integer [] None None None None None)])
            (Some [''ID'']) None None)"
proof -
  have "reflectSchemaByObject noFloat
          (TStruct ''pkg'' ''T'' ''pkg.T'' ([StructField ''ID'' False True [] TInt] @ [])) =
        Inr (Property ObjectT [] None
               (Some [(''ID'', Property Integer [] None None None None None)])
               (Some [''ID'']) None None)"
    by (simp add: run_defs)
  with unexported_declared_field_skipped
    [of "StructField ''secret'' False False [(''enum'', ''x'')] TChan"
        noFloat "''pkg''" "''T''" "''pkg.T''" "[StructField ''ID'' False True [] TInt]" "[]"]
  show ?thesis by simp
qed

text \<open>
  C1 as stated fails on an embedded field: the loop tests \<open>field.Anonymous\<close>
  before \<open>field.IsExported()\<close>, so an unexported embedded struct is flattened
  into the parent like an exported one.
\<close>

theorem unexported_embedded_field_counterexample:
  "\<not> IsExported
      (StructField ''base'' True False []
         (TStruct ''pkg'' ''base'' ''pkg.base'' [StructField ''ID'' False True [] TString])) \<and>
   reflectSchemaByObject noFloat
     (TStruct ''pkg'' ''T'' ''pkg.T''
        [StructField ''base'' True False []
           (TStruct ''pkg'' ''base'' ''pkg.base'' [StructField ''ID'' False True [] TString])]) =
   Inr (Property ObjectT [] None
          (Some [(''ID'', Property String [] None None None None None)])
          (Some [''ID'']) None None) \<and>
   reflectSchemaByObject noFloat (TStruct ''pkg'' ''T'' ''pkg.T'' []) =
   Inr (Property ObjectT [] None (Some []) (Some []) None None)"
  by (simp add: run_defs)

section \<open>Collisions of property names\<close>

lemma fieldBody_distinct:
  "fieldBody pf f r props req = Inr (props', req') \<Longrightarrow> distinct (map fst props) \<Longrightarrow>
     distinct (map fst props')"
  by (cases r) (auto simp: fieldBody_unfold distinct_update split: sum.splits)

lemma fieldLoop_distinct:
  "fieldLoop pf rfs props req anon = Inr (props', req', anon') \<Longrightarrow>
     distinct (map fst props) \<Longrightarrow> distinct (map fst props')"
  by (induction pf rfs props req anon rule: fieldLoop.induct)
     (auto split: sum.splits if_splits dest: fieldBody_distinct)

lemma anonymousLoop_distinct:
  "anonymousLoop rfs props req = Inr (props', req') \<Longrightarrow>
     distinct (map fst props) \<Longrightarrow> distinct (map fst props')"
  by (induction rfs props req rule: anonymousLoop.induct)
     (auto split: sum.splits dest: mergeLoop_distinct)

lemma objectBody_distinct:
  assumes "objectBody pf rfs = Inr p"
  shows "distinct (propertyNames p)"
proof -
  from assms obtain props req anon props' req'
    where loop1: "fieldLoop pf rfs [] [] [] = Inr (props, req, anon)"
      and loop2: "anonymousLoop anon props req = Inr (props', req')"
      and p: "p = Property ObjectT [] None (Some props') (Some req') None None"
    by (auto simp: objectBody_def split: sum.splits)
  from fieldLoop_distinct [OF loop1] have "distinct (map fst props)" by simp
  with anonymousLoop_distinct [OF loop2] p show ?thesis
    by (simp add: propertyNames_def entries_def)
qed

lemma reflectSchemaByObject_not_struct:
  "KindOf t \<noteq> reflect_Struct \<Longrightarrow> reflectSchemaByObject pf t = Inl Panic"
  by (cases t) simp_all

lemma reflectSchemaByObject_distinct:
  assumes "reflectSchemaByObject pf t = Inr p"
  shows "distinct (propertyNames p)"
proof (cases "KindOf t = reflect_Struct")
  case True
  then obtain pk nm st fs where "t = TStruct pk nm st fs" by (cases t) simp_all
  with assms have "objectBody pf (reflectFields pf fs) = Inr p"
    by (simp only: reflectSchemaByObject_struct)
  then show ?thesis by (rule objectBody_distinct)
next
  case False
  with assms reflectSchemaByObject_not_struct [of t pf] show ?thesis by simp
qed

lemma mergeLoop_iff:
  "(\<exists>props'. mergeLoop xs props = Inr props') \<longleftrightarrow>
     distinct (map fst xs) \<and> fst ` set xs \<inter> fst ` set props = {}"
proof
  assume "\<exists>props'. mergeLoop xs props = Inr props'"
  then obtain props' where "mergeLoop xs props = Inr props'" ..
  then show "distinct (map fst xs) \<and> fst ` set xs \<inter> fst ` set props = {}"
    by (rule mergeLoop_keys)
next
  assume "distinct (map fst xs) \<and> fst ` set xs \<inter> fst ` set props = {}"
  then show "\<exists>props'. mergeLoop xs props = Inr props'"
    by (simp add: mergeLoop_success)
qed

lemma mergeLoop_dom:
  "mergeLoop xs props = Inr props' \<Longrightarrow> fst ` set props' = fst ` set props \<union> fst ` set xs"
  by (induction xs props rule: mergeLoop.induct) (auto simp: dom_update split: if_splits)

text \<open>
  Go runs over the entries of a map in no fixed order. The order does not
  matter to the merge: whether it fails, and the map it builds, are the same
  for every order of the same entries.
\<close>

lemma mergeLoop_order:
  assumes "set xs = set ys" and "distinct (map fst xs)" and "distinct (map fst ys)"
  shows "isl (mergeLoop xs props) = isl (mergeLoop ys props)"
    and "mergeLoop xs props = Inr p \<Longrightarrow> mergeLoop ys props = Inr q \<Longrightarrow> map_of p = map_of q"
proof -
  from assms have "(\<exists>p. mergeLoop xs props = Inr p) = (\<exists>q. mergeLoop ys props = Inr q)"
    by (simp add: mergeLoop_iff)
  then show "isl (mergeLoop xs props) = isl (mergeLoop ys props)"
    by (cases "mergeLoop xs props"; cases "mergeLoop ys props") auto
next
  assume "mergeLoop xs props = Inr p" "mergeLoop ys props = Inr q"
  then have "map_of p = map_of props ++ map_of xs" "map_of q = map_of props ++ map_of ys"
    by (simp_all add: mergeLoop_map_of)
  moreover from assms have "map_of xs = map_of ys"
    by (simp add: map_of_inject_set)
  ultimately show "map_of p = map_of q" by simp
qed

text \<open>
  The second loop over objects that all reflect: it succeeds exactly when no
  property name occurs twice among the names already there and those of the
  objects, and otherwise fails with \<open>DuplicateProperty\<close>.
\<close>

lemma anonymousLoop_collision:
  assumes "map (\<lambda>r. snd (snd r)) rfs = map Inr os" and "distinct (map fst props)"
  shows "(distinct (map fst props @ concat (map propertyNames os)) \<longrightarrow>
            (\<exists>props' req'. anonymousLoop rfs props req = Inr (props', req') \<and>
               set (map fst props') = set (map fst props @ concat (map propertyNames os)))) \<and>
         (\<not> distinct (map fst props @ concat (map propertyNames os)) \<longrightarrow>
            anonymousLoop rfs props req = Inl DuplicateProperty)"
  using assms
proof (induction rfs props req arbitrary: os rule: anonymousLoop.induct)
  case (1 properties requiredFields)
  then show ?case by simp
next
  case (2 field byType byObject rest properties requiredFields)
  from "2.prems"(1) obtain object os' where os: "os = object # os'"
    and obj: "byObject = Inr object"
    and rest: "map (\<lambda>r. snd (snd r)) rest = map Inr os'"
    by (cases os) auto
  let ?xs = "entries (Properties object)"
  show ?case
  proof (cases "mergeLoop ?xs properties")
    case (Inl err)
    then have err: "err = DuplicateProperty" by (rule mergeLoop_error)
    from Inl mergeLoop_iff [of ?xs properties]
    have "\<not> (distinct (map fst ?xs) \<and> fst ` set ?xs \<inter> fst ` set properties = {})"
      by auto
    then have "\<not> distinct (map fst properties @ concat (map propertyNames os))"
      by (auto simp: os propertyNames_def)
    with Inl err obj show ?thesis by simp
  next
    case (Inr merged)
    from mergeLoop_keys [OF Inr]
    have keys: "distinct (map fst ?xs)" "fst ` set ?xs \<inter> fst ` set properties = {}"
      by simp_all
    from mergeLoop_dom [OF Inr]
    have dom: "fst ` set merged = fst ` set properties \<union> fst ` set ?xs" .
    from mergeLoop_distinct [OF Inr "2.prems"(2)] have dm: "distinct (map fst merged)" .
    from "2.IH" [OF obj Inr rest dm]
    have IH: "(distinct (map fst merged @ concat (map propertyNames os')) \<longrightarrow>
            (\<exists>props' req'. anonymousLoop rest merged (requiredFields @ entries (Required object))
                 = Inr (props', req') \<and>
               set (map fst props') = set (map fst merged @ concat (map propertyNames os')))) \<and>
         (\<not> distinct (map fst merged @ concat (map propertyNames os')) \<longrightarrow>
            anonymousLoop rest merged (requiredFields @ entries (Required object))
              = Inl DuplicateProperty)" .
    define P where "P = map fst properties"
    define X where "X = map fst ?xs"
    define M where "M = map fst merged"
    define C where "C = concat (map propertyNames os')"
    have cat: "concat (map propertyNames os) = X @ C"
      by (simp add: os propertyNames_def X_def C_def)
    have facts: "distinct X" "set X \<inter> set P = {}" "set M = set P \<union> set X"
      "distinct M" "distinct P"
      using keys dom dm "2.prems"(2) by (simp_all add: P_def X_def M_def)
    have "distinct (P @ X @ C) \<longleftrightarrow> distinct (M @ C)"
      using facts by (simp add: Int_Un_distrib2) blast
    then have eq: "distinct (map fst properties @ concat (map propertyNames os)) \<longleftrightarrow>
              distinct (map fst merged @ concat (map propertyNames os'))"
      by (simp only: cat P_def [symmetric] M_def [symmetric] C_def [symmetric])
    have "set (M @ C) = set (P @ X @ C)"
      using facts by auto
    then have sets: "set (map fst merged @ concat (map propertyNames os')) =
                set (map fst properties @ concat (map propertyNames os))"
      by (simp only: cat P_def [symmetric] M_def [symmetric] C_def [symmetric])
    from IH eq sets obj Inr show ?thesis by simp
  qed
qed

text \<open>
  Between two declared fields there is no such check: the body stores the
  property under the field's external name whether or not the name is taken.
\<close>

lemma fieldBody_overrides:
  assumes "fieldBody pf f r props req = Inr (props', req')"
  shows "\<exists>q. map_of props' = (map_of props)(externalName f \<mapsto> q)"
  using assms
  by (cases r) (auto simp: fieldBody_unfold update_conv' split: sum.splits)

text \<open>
  C3, as amended. The property names of every derived object are distinct.
  Let the declared fields of a struct derive the object \<open>p0\<close> and the types of
  its embedded fields reflect as the objects \<open>os\<close>. If no name occurs twice
  among the property names of \<open>p0\<close> and \<open>os\<close>, the struct derives an object
  with exactly these names; if a name contributed by an embedded field is
  already there, from a declared field or from an earlier embedded one, the
  derivation fails with \<open>DuplicateProperty\<close>.
\<close>

theorem embedded_collision_is_error:
  "(reflectSchemaByObject pf (TStruct pk nm st (filter declaredField fs)) = Inr p0 \<and>
    map (\<lambda>f. reflectSchemaByObject pf (FieldType f)) (filter embeddedField fs) = map Inr os \<longrightarrow>
      (distinct (concat (map propertyNames (p0 # os))) \<longrightarrow>
         (\<exists>p. reflectSchemaByObject pf (TStruct pk nm st fs) = Inr p \<and>
              set (propertyNames p) = set (concat (map propertyNames (p0 # os))))) \<and>
      (\<not> distinct (concat (map propertyNames (p0 # os))) \<longrightarrow>
         reflectSchemaByObject pf (TStruct pk nm st fs) = Inl DuplicateProperty)) \<and>
   (reflectSchemaByObject pf t = Inr p \<longrightarrow> distinct (propertyNames p))"
proof (intro conjI impI)
  assume a: "reflectSchemaByObject pf (TStruct pk nm st (filter declaredField fs)) = Inr p0 \<and>
    map (\<lambda>f. reflectSchemaByObject pf (FieldType f)) (filter embeddedField fs) = map Inr os"
  then have "objectBody pf (reflectFields pf (filter declaredField fs)) = Inr p0"
    by (simp only: reflectSchemaByObject_struct)
  then obtain props0 req0 anon0
    where loop1: "fieldLoop pf (reflectFields pf (filter declaredField fs)) [] [] [] =
                    Inr (props0, req0, anon0)"
      and p0: "p0 = Property ObjectT [] None (Some props0) (Some req0) None None"
    by (auto simp: objectBody_declared split: sum.splits)
  from fieldLoop_distinct [OF loop1] have d0: "distinct (map fst props0)" by simp
  from a have os: "map (\<lambda>r. snd (snd r)) (reflectFields pf (filter embeddedField fs)) = map Inr os"
    by (simp add: reflectFields_def comp_def)
  have names: "concat (map propertyNames (p0 # os)) = map fst props0 @ concat (map propertyNames os)"
    by (simp add: p0 propertyNames_def entries_def)
  note collision = anonymousLoop_collision [OF os d0, of req0]
  have body: "objectBody pf (reflectFields pf fs) =
     (case anonymousLoop (reflectFields pf (filter embeddedField fs)) props0 req0 of
        Inl err \<Rightarrow> Inl err
      | Inr (props1, req1) \<Rightarrow>
          Inr (Property ObjectT [] None (Some props1) (Some req1) None None))"
    by (simp add: objectBody_split loop1)
  {
    assume "distinct (concat (map propertyNames (p0 # os)))"
    with collision names obtain props1 req1
      where "anonymousLoop (reflectFields pf (filter embeddedField fs)) props0 req0 =
               Inr (props1, req1)"
        and "set (map fst props1) = set (concat (map propertyNames (p0 # os)))"
      by auto
    with body
    show "\<exists>p. reflectSchemaByObject pf (TStruct pk nm st fs) = Inr p \<and>
              set (propertyNames p) = set (concat (map propertyNames (p0 # os)))"
      by (simp add: reflectSchemaByObject_struct propertyNames_def entries_def
            del: reflectSchemaByObject.simps)
  }
  {
    assume "\<not> distinct (concat (map propertyNames (p0 # os)))"
    with collision names
    have "anonymousLoop (reflectFields pf (filter embeddedField fs)) props0 req0 =
            Inl DuplicateProperty"
      by simp
    with body
    show "reflectSchemaByObject pf (TStruct pk nm st fs) = Inl DuplicateProperty"
      by (simp add: reflectSchemaByObject_struct del: reflectSchemaByObject.simps)
  }
next
  assume "reflectSchemaByObject pf t = Inr p"
  then show "distinct (propertyNames p)" by (rule reflectSchemaByObject_distinct)
qed

theorem embedded_collision_is_error_witness:
  "reflectSchemaByObject noFloat
     (TStruct ''pkg'' ''T'' ''pkg.T''
        (filter declaredField
           [StructField ''X'' False True [] TInt,
            StructField ''A'' True True []
              (TStruct ''pkg'' ''A'' ''pkg.A'' [StructField ''X'' False True [] TString])])) =
     Inr (Property ObjectT [] None
            (Some [(''X'', Property Integer [] None None None None None)])
            (Some [''X'']) None None) \<and>
   map (\<lambda>f. reflectSchemaByObject noFloat (FieldType f))
     (filter embeddedField
        [StructField ''X'' False True [] TInt,
         StructField ''A'' True True []
           (TStruct ''pkg'' ''A'' ''pkg.A'' [StructField ''X'' False True [] TString])]) =
     map Inr [Property ObjectT [] None
                (Some [(''X'', Property String [] None None None None None)])
                (Some [''X'']) None None] \<and>
   reflectSchemaByObject noFloat
     (TStruct ''pkg'' ''T'' ''pkg.T''
        [StructField ''X'' False True [] TInt,
         StructField ''A'' True True []
           (TStruct ''pkg'' ''A'' ''pkg.A'' [StructField ''X'' False True [] TString])]) =
     Inl DuplicateProperty"
proof -
  let ?a = "TStruct ''pkg'' ''A'' ''pkg.A'' [StructField ''X'' False True [] TString]"
  let ?fs = "[StructField ''X'' False True [] TInt, StructField ''A'' True True [] ?a]"
  let ?p0 = "Property ObjectT [] None
            (Some [(''X'', Property Integer [] None None None None None)])
            (Some [''X'']) None None :: unit Property"
  let ?o = "Property ObjectT [] None
                (Some [(''X'', Property String [] None None None None None)])
                (Some [''X'']) None None :: unit Property"
  have declared: "reflectSchemaByObject noFloat
                    (TStruct ''pkg'' ''T'' ''pkg.T'' (filter declaredField ?fs)) = Inr ?p0"
    by (simp add: declaredField_def run_defs)
  have embedded: "map (\<lambda>f. reflectSchemaByObject noFloat (FieldType f))
                    (filter embeddedField ?fs) = map Inr [?o]"
    by (simp add: embeddedField_def run_defs)
  have twice: "\<not> distinct (concat (map propertyNames (?p0 # [?o])))"
    by (simp add: propertyNames_def entries_def)
  from embedded_collision_is_error
    [of noFloat "''pkg''" "''T''" "''pkg.T''" ?fs ?p0 "[?o]"] declared embedded twice
  have "reflectSchemaByObject noFloat (TStruct ''pkg'' ''T'' ''pkg.T'' ?fs) =
          Inl DuplicateProperty"
    by blast
  with declared embedded show ?thesis by blast
qed

text \<open>
  C3 as stated fails on two declared fields with the same external name: the
  second property silently replaces the first, and the name is listed twice
  as required.
\<close>

theorem declared_collision_counterexample:
  "externalName (StructField ''A'' False True [(''json'', ''x'')] TString) =
   externalName (StructField ''B'' False True [(''json'', ''x'')] TInt) \<and>
   reflectSchemaByObject noFloat
     (TStruct ''pkg'' ''T'' ''pkg.T''
        [StructField ''A'' False True [(''json'', ''x'')] TString,
         StructField ''B'' False True [(''json'', ''x'')] TInt]) =
     Inr (Property ObjectT [] None
            (Some [(''x'', Property Integer [] None None None None None)])
            (Some [''x'', ''x'']) None None)"
  by (simp add: externalName_def run_defs)

section \<open>Nodes of kind object\<close>

lemma objectNodes_iff:
  "objectNodes p \<longleftrightarrow>
     objectNode p \<and>
     (\<forall>i. Items p = Some i \<longrightarrow> objectNodes i) \<and>
     (\<forall>n c. (n, c) \<in> set (entries (Properties p)) \<longrightarrow> objectNodes c)"
proof (cases p)
  case (Property ty d items props req en df)
  show ?thesis
  proof (cases items; cases props)
  qed (auto simp: Property entries_def objectNodes_def)
qed

lemma objectNodes_bare: "objectNodes (bare ty)"
  by (simp add: objectNodes_def bare_def objectNode_def)

lemma objectNodes_set_Type:
  assumes "objectNodes p" and "objectNode (set_Type ty p)"
  shows "objectNodes (set_Type ty p)"
  using assms unfolding objectNodes_iff [of "set_Type ty p"] objectNodes_iff [of p]
  by (simp add: set_Type_def)

lemma objectNodes_set_Description:
  assumes "objectNodes p"
  shows "objectNodes (set_Description d p)"
  using assms unfolding objectNodes_iff [of "set_Description d p"] objectNodes_iff [of p]
  by (simp add: set_Description_def objectNode_def)

lemma objectNodes_set_Enum:
  assumes "objectNodes p" and "Type p \<noteq> ObjectT"
  shows "objectNodes (set_Enum vs p)"
  using assms unfolding objectNodes_iff [of "set_Enum vs p"] objectNodes_iff [of p]
  by (simp add: set_Enum_def objectNode_def)

lemma objectNodes_set_Default:
  assumes "objectNodes p" and "Type p = ObjectT \<longrightarrow> (\<exists>s. v = VString s)"
  shows "objectNodes (set_Default v p)"
  using assms unfolding objectNodes_iff [of "set_Default v p"] objectNodes_iff [of p]
  by (auto simp: set_Default_def objectNode_def)

text \<open>A type of a kind with a conversion rule does not reflect as an object.\<close>

lemma primitive_not_object:
  assumes "reflectSchemaByType pf ty = Inr item" and "primitiveKind (KindOf ty)"
  shows "Type item \<noteq> ObjectT"
  using assms
  by (cases ty)
     (auto simp: bare_def primitiveKind_def signedKind_def unsignedKind_def floatKind_def)

lemma set_update_subset: "set (AList.update k v ps) \<subseteq> insert (k, v) (set ps)"
  by (induction ps) auto

lemma enumTag_nodes:
  assumes "enumTag pf f item0 = Inr item1" and "objectNodes item0"
    and "reflectSchemaByType pf (FieldType f) = Inr item" and "Type item0 = Type item"
  shows "objectNodes item1 \<and> Type item1 = Type item"
proof (cases "Get (Tag f) ''enum'' = []")
  case True
  with assms show ?thesis by (simp add: enumTag_def)
next
  case False
  with assms(1) obtain vals
    where loop: "enumLoop pf (FieldType f) (Split_comma (Get (Tag f) ''enum'')) = Inr vals"
      and item1: "item1 = set_Enum vals item0"
    by (auto simp: enumTag_def Let_def split: sum.splits)
  have "primitiveKind (KindOf (FieldType f))"
  proof (rule ccontr)
    assume "\<not> primitiveKind (KindOf (FieldType f))"
    then have "enumLoop pf (FieldType f) (Split_comma (Get (Tag f) ''enum'')) =
                 Inl (EnumUnsupportedType (FieldType f))"
      by (rule enumLoop_other) (rule Split_comma_nonempty)
    with loop show False by simp
  qed
  with assms(3) have "Type item \<noteq> ObjectT" by (rule primitive_not_object)
  with assms item1 show ?thesis
    by (simp add: objectNodes_set_Enum) (simp add: set_Enum_def)
qed

lemma defaultTag_nodes:
  assumes "defaultTag pf f item1 = Inr item2" and "objectNodes item1"
    and "reflectSchemaByType pf (FieldType f) = Inr item" and "Type item1 = Type item"
  shows "objectNodes item2"
proof (cases "Get (Tag f) ''default'' = []")
  case True
  with assms show ?thesis by (simp add: defaultTag_def)
next
  case False
  with assms(1) obtain v
    where dv: "defaultValue pf (FieldType f) (Get (Tag f) ''default'') = Inr v"
      and item2: "item2 = set_Default v item1"
    by (auto simp: defaultTag_def Let_def split: sum.splits)
  have "\<exists>s. v = VString s" if "Type item1 = ObjectT"
  proof -
    from that assms(3,4) primitive_not_object [of pf "FieldType f" item]
    have "\<not> primitiveKind (KindOf (FieldType f))" by auto
    with dv show ?thesis by (auto simp: defaultValue_other)
  qed
  with assms(2) item2 show ?thesis by (simp add: objectNodes_set_Default)
qed

lemma fieldBody_nodes:
  assumes "fieldBody pf f (reflectSchemaByType pf (FieldType f)) props req = Inr (props', req')"
    and "\<And>item. reflectSchemaByType pf (FieldType f) = Inr item \<Longrightarrow> objectNodes item"
    and "\<forall>(n, c) \<in> set props. objectNodes c"
  shows "\<forall>(n, c) \<in> set props'. objectNodes c"
proof -
  from assms(1) obtain item where r: "reflectSchemaByType pf (FieldType f) = Inr item"
    by (cases "reflectSchemaByType pf (FieldType f)") simp_all
  let ?item0 = "if Get (Tag f) ''description'' \<noteq> []
                then set_Description (Get (Tag f) ''description'') item else item"
  from assms(1) r obtain item1 item2
    where e: "enumTag pf f ?item0 = Inr item1"
      and d: "defaultTag pf f item1 = Inr item2"
      and props': "props' = AList.update (externalName f) item2 props"
    by (auto simp: fieldBody_unfold split: sum.splits)
  from assms(2) [OF r] have n0: "objectNodes ?item0"
    by (simp add: objectNodes_set_Description)
  have t0: "Type ?item0 = Type item" by (simp add: set_Description_def)
  from enumTag_nodes [OF e n0 r t0] have n1: "objectNodes item1" and t1: "Type item1 = Type item"
    by simp_all
  from defaultTag_nodes [OF d n1 r t1] have "objectNodes item2" .
  with assms(3) props' set_update_subset [of "externalName f" item2 props]
  show ?thesis by auto
qed

lemma fieldLoop_nodes:
  assumes "fieldLoop pf (reflectFields pf fs) props req anon = Inr (props', req', anon')"
    and "\<And>f item. f \<in> set fs \<Longrightarrow> reflectSchemaByType pf (FieldType f) = Inr item \<Longrightarrow>
           objectNodes item"
    and "\<forall>(n, c) \<in> set props. objectNodes c"
  shows "\<forall>(n, c) \<in> set props'. objectNodes c"
  using assms
proof (induction fs arbitrary: props req anon)
  case Nil
  then show ?case by (simp add: reflectFields_def)
next
  case (Cons f fs)
  let ?a = "reflectSchemaByType pf (FieldType f)"
  have tail: "\<And>g item. g \<in> set fs \<Longrightarrow> reflectSchemaByType pf (FieldType g) = Inr item \<Longrightarrow>
           objectNodes item"
    using Cons.prems(2) by auto
  show ?case
  proof (cases "explicitField f")
    case True
    with Cons.prems(1) obtain props1 req1
      where body: "fieldBody pf f ?a props req = Inr (props1, req1)"
        and rest: "fieldLoop pf (reflectFields pf fs) props1 req1 anon = Inr (props', req', anon')"
      by (auto simp: reflectFields_def explicitField_def split: sum.splits)
    have "\<forall>(n, c) \<in> set props1. objectNodes c"
      by (rule fieldBody_nodes [OF body _ Cons.prems(3)]) (rule Cons.prems(2), simp_all)
    with Cons.IH [OF rest tail] show ?thesis by simp
  next
    case False
    with Cons.prems(1)
    obtain anon1 where "fieldLoop pf (reflectFields pf fs) props req anon1 = Inr (props', req', anon')"
      by (auto simp: reflectFields_def explicitField_def split: if_splits)
    from Cons.IH [OF this tail Cons.prems(3)] show ?thesis by simp
  qed
qed

lemma anonymousLoop_nodes:
  assumes "anonymousLoop rfs props req = Inr (props', req')"
    and "\<forall>r \<in> set rfs. \<forall>object. snd (snd r) = Inr object \<longrightarrow> objectNodes object"
    and "\<forall>(n, c) \<in> set props. objectNodes c"
  shows "\<forall>(n, c) \<in> set props'. objectNodes c"
  using assms
proof (induction rfs props req rule: anonymousLoop.induct)
  case (1 properties requiredFields)
  then show ?case by simp
next
  case (2 field byType byObject rest properties requiredFields)
  from "2.prems"(1) obtain object merged
    where obj: "byObject = Inr object"
      and merge: "mergeLoop (entries (Properties object)) properties = Inr merged"
      and rest: "anonymousLoop rest merged (requiredFields @ entries (Required object)) =
                   Inr (props', req')"
    by (auto split: sum.splits)
  from "2.prems"(2) obj have "objectNodes object" by simp
  then have "\<forall>(n, c) \<in> set (entries (Properties object)). objectNodes c"
    using objectNodes_iff [of object] by auto
  with mergeLoop_set [OF merge] "2.prems"(3)
  have "\<forall>(n, c) \<in> set merged. objectNodes c" by blast
  with "2.IH" [OF obj merge rest] "2.prems"(2) show ?case by simp
qed

lemma objectBody_root:
  assumes "objectBody pf rfs = Inr p"
  shows "Type p = ObjectT \<and> Description p = [] \<and> Items p = None \<and> Properties p \<noteq> None \<and>
         Required p \<noteq> None \<and> Enum p = None \<and> Default p = None"
  using assms by (auto simp: objectBody_def split: sum.splits)

lemma reflectSchemaByObject_root:
  assumes "reflectSchemaByObject pf t = Inr p"
  shows "Type p = ObjectT \<and> Description p = [] \<and> Items p = None \<and> Properties p \<noteq> None \<and>
         Required p \<noteq> None \<and> Enum p = None \<and> Default p = None"
proof (cases "KindOf t = reflect_Struct")
  case True
  then obtain pk nm st fs where "t = TStruct pk nm st fs" by (cases t) simp_all
  with assms have "objectBody pf (reflectFields pf fs) = Inr p"
    by (simp only: reflectSchemaByObject_struct)
  then show ?thesis by (rule objectBody_root)
next
  case False
  with assms reflectSchemaByObject_not_struct [of t pf] show ?thesis by simp
qed

lemma objectBody_nodes:
  assumes "objectBody pf (reflectFields pf fs) = Inr p"
    and "\<And>f item. f \<in> set fs \<Longrightarrow> reflectSchemaByType pf (FieldType f) = Inr item \<Longrightarrow>
           objectNodes item"
    and "\<And>f object. f \<in> set fs \<Longrightarrow> reflectSchemaByObject pf (FieldType f) = Inr object \<Longrightarrow>
           objectNodes object"
  shows "objectNodes p"
proof -
  from assms(1) obtain props req anon props' req'
    where loop1: "fieldLoop pf (reflectFields pf fs) [] [] [] = Inr (props, req, anon)"
      and loop2: "anonymousLoop anon props req = Inr (props', req')"
      and p: "p = Property ObjectT [] None (Some props') (Some req') None None"
    by (auto simp: objectBody_def split: sum.splits)
  have n1: "\<forall>(n, c) \<in> set props. objectNodes c"
    by (rule fieldLoop_nodes [OF loop1]) (erule (1) assms(2), simp)
  from fieldLoop_reflectFields_anon [OF loop1]
  have anon: "anon = reflectFields pf (filter Anonymous fs)" .
  have "\<forall>r \<in> set anon. \<forall>object. snd (snd r) = Inr object \<longrightarrow> objectNodes object"
    using assms(3) by (auto simp: anon reflectFields_def)
  from anonymousLoop_nodes [OF loop2 this n1]
  have "\<forall>(n, c) \<in> set props'. objectNodes c" .
  then show ?thesis
    unfolding objectNodes_iff [of p] by (auto simp: p objectNode_def entries_def)
qed


lemma size_FieldType: "f \<in> set fs \<Longrightarrow> size (FieldType f) < size (TStruct pk nm st fs)"
proof (induction fs)
  case Nil
  then show ?case by simp
next
  case (Cons g fs)
  then show ?case by (cases g) auto
qed

text \<open>Both reflectors return trees whose nodes of kind object are as \<open>objectNode\<close> says.\<close>

lemma reflect_nodes:
  "(\<forall>p. reflectSchemaByObject pf t = Inr p \<longrightarrow> objectNodes p) \<and>
   (\<forall>p. reflectSchemaByType pf t = Inr p \<longrightarrow> objectNodes p)"
proof (induction t rule: measure_induct_rule [where f = size])
  case (less t)
  show ?case
  proof (cases t)
    case (TStruct pk nm st fs)
    have fields: "\<And>f. f \<in> set fs \<Longrightarrow> size (FieldType f) < size t"
      unfolding TStruct by (rule size_FieldType)
    have object: "objectNodes p" if "reflectSchemaByObject pf t = Inr p" for p
    proof -
      from that have "objectBody pf (reflectFields pf fs) = Inr p"
        unfolding TStruct by (simp only: reflectSchemaByObject_struct)
      then show ?thesis
      proof (rule objectBody_nodes)
        fix f item
        assume "f \<in> set fs" "reflectSchemaByType pf (FieldType f) = Inr item"
        with less.IH [OF fields] show "objectNodes item" by blast
      next
        fix f object
        assume "f \<in> set fs" "reflectSchemaByObject pf (FieldType f) = Inr object"
        with less.IH [OF fields] show "objectNodes object" by blast
      qed
    qed
    have "objectNodes p" if "reflectSchemaByType pf t = Inr p" for p
    proof -
      from that obtain object where o: "reflectSchemaByObject pf t = Inr object"
        and p: "p = set_Type ObjectT object"
        unfolding TStruct by (auto split: sum.splits)
      from reflectSchemaByObject_root [OF o] have "objectNode (set_Type ObjectT object)"
        by (auto simp: objectNode_def set_Type_def)
      with object [OF o] show ?thesis unfolding p by (rule objectNodes_set_Type)
    qed
    with object show ?thesis by blast
  next
    case (TSlice e)
    have "objectNodes p" if "reflectSchemaByType pf t = Inr p" for p
    proof -
      from that obtain items where i: "reflectSchemaByType pf e = Inr items"
        and p: "p = Property Array [] (Some items) None None None None"
        unfolding TSlice by (auto split: sum.splits)
      from less.IH [of e] i have "objectNodes items" by (simp add: TSlice)
      then show ?thesis
        unfolding objectNodes_iff [of p] by (simp add: p objectNode_def entries_def)
    qed
    then show ?thesis by (simp add: TSlice)
  next
    case (TArray e)
    have "objectNodes p" if "reflectSchemaByType pf t = Inr p" for p
    proof -
      from that obtain items where i: "reflectSchemaByType pf e = Inr items"
        and p: "p = Property Array [] (Some items) None None None None"
        unfolding TArray by (auto split: sum.splits)
      from less.IH [of e] i have "objectNodes items" by (simp add: TArray)
      then show ?thesis
        unfolding objectNodes_iff [of p] by (simp add: p objectNode_def entries_def)
    qed
    then show ?thesis by (simp add: TArray)
  next
    case (TPtr e)
    from less.IH [of e] show ?thesis by (auto simp: TPtr split: sum.splits)
  qed (simp_all add: objectNodes_bare)
qed

text \<open>
  C6, as amended. In every tree either reflector returns, a node of kind
  object has no items and no enum, has its properties and its required list
  both defined or both absent, and has no default or a string (the raw text
  of a default tag). The object the Object Reflector returns, and the one the
  Kind Reflector returns for a struct type, has properties and required list
  defined and nothing else set; the object for a map type has neither.
\<close>

theorem object_nodes_shape:
  "(reflectSchemaByObject pf t = Inr p \<or> reflectSchemaByType pf t = Inr p \<longrightarrow>
      objectNodes p) \<and>
   (reflectSchemaByObject pf t = Inr p \<longrightarrow>
      Type p = ObjectT \<and> Properties p \<noteq> None \<and> Required p \<noteq> None \<and>
      Items p = None \<and> Enum p = None \<and> Default p = None) \<and>
   (KindOf t = reflect_Struct \<and> reflectSchemaByType pf t = Inr p \<longrightarrow>
      Type p = ObjectT \<and> Properties p \<noteq> None \<and> Required p \<noteq> None \<and>
      Items p = None \<and> Enum p = None \<and> Default p = None) \<and>
   (KindOf t = reflect_Map \<and> reflectSchemaByType pf t = Inr p \<longrightarrow>
      Type p = ObjectT \<and> Properties p = None \<and> Required p = None \<and>
      Items p = None \<and> Enum p = None \<and> Default p = None)"
proof -
  have nodes: "objectNodes p"
    if "reflectSchemaByObject pf t = Inr p \<or> reflectSchemaByType pf t = Inr p"
    using that reflect_nodes [of pf t] by blast
  have root: "Type p = ObjectT \<and> Properties p \<noteq> None \<and> Required p \<noteq> None \<and>
      Items p = None \<and> Enum p = None \<and> Default p = None"
    if "reflectSchemaByObject pf t = Inr p"
    using reflectSchemaByObject_root [OF that] by simp
  have struct: "Type p = ObjectT \<and> Properties p \<noteq> None \<and> Required p \<noteq> None \<and>
      Items p = None \<and> Enum p = None \<and> Default p = None"
    if a: "KindOf t = reflect_Struct \<and> reflectSchemaByType pf t = Inr p"
  proof -
    from a obtain pk nm st fs where t: "t = TStruct pk nm st fs" by (cases t) simp_all
    with a obtain object where o: "reflectSchemaByObject pf t = Inr object"
      and p: "p = set_Type ObjectT object"
      by (auto split: sum.splits)
    from reflectSchemaByObject_root [OF o] show ?thesis
      by (simp add: p set_Type_def)
  qed
  have mapping: "Type p = ObjectT \<and> Properties p = None \<and> Required p = None \<and>
      Items p = None \<and> Enum p = None \<and> Default p = None"
    if a: "KindOf t = reflect_Map \<and> reflectSchemaByType pf t = Inr p"
  proof -
    from a obtain k e where "t = TMap k e" by (cases t) simp_all
    with a show ?thesis by (auto simp: bare_def split: if_splits)
  qed
  from nodes root struct mapping show ?thesis by blast
qed

theorem object_nodes_shape_witness:
  "reflectSchemaByObject noFloat
     (TStruct ''pkg'' ''T'' ''pkg.T''
        [StructField ''Opts'' False True [(''default'', ''{}'')] (TMap TString TInt),
         StructField ''Sub'' False True []
           (TStruct ''pkg'' ''S'' ''pkg.S'' [StructField ''N'' False True [] TInt])]) =
     Inr (Property ObjectT [] None
            (Some [(''Opts'', Property ObjectT [] None None None None (Some (VString ''{}''))),
                   (''Sub'',
                    Property ObjectT [] None
                      (Some [(''N'', Property Integer [] None None None None None)])
                      (Some [''N'']) None None)])
            (Some [''Opts'', ''Sub'']) None None) \<and>
   objectNodes
     (Property ObjectT [] None
        (Some [(''Opts'', Property ObjectT [] None None None None (Some (VString ''{}''))),
               (''Sub'',
                Property ObjectT [] None
                  (Some [(''N'', Property Integer [] None None None None None)])
                  (Some [''N'']) None None)])
        (Some [''Opts'', ''Sub'']) None (None :: unit anyval option)) \<and>
   KindOf (TMap TString TInt) = reflect_Map \<and>
   reflectSchemaByType noFloat (TMap TString TInt) =
     Inr (Property ObjectT [] None None None None None) \<and>
   KindOf (TStruct ''pkg'' ''S'' ''pkg.S'' [StructField ''N'' False True [] TInt]) =
     reflect_Struct \<and>
   reflectSchemaByType noFloat
     (TStruct ''pkg'' ''S'' ''pkg.S'' [StructField ''N'' False True [] TInt]) =
     Inr (Property ObjectT [] None
            (Some [(''N'', Property Integer [] None None None None None)])
            (Some [''N'']) None None)"
proof -
  let ?s = "TStruct ''pkg'' ''S'' ''pkg.S'' [StructField ''N'' False True [] TInt]"
  let ?t = "TStruct ''pkg'' ''T'' ''pkg.T''
        [StructField ''Opts'' False True [(''default'', ''{}'')] (TMap TString TInt),
         StructField ''Sub'' False True [] ?s]"
  let ?p = "Property ObjectT [] None
        (Some [(''Opts'', Property ObjectT [] None None None None (Some (VString ''{}''))),
               (''Sub'',
                Property ObjectT [] None
                  (Some [(''N'', Property Integer [] None None None None None)])
                  (Some [''N'']) None None)])
        (Some [''Opts'', ''Sub'']) None (None :: unit anyval option)"
  have run: "reflectSchemaByObject noFloat ?t = Inr ?p"
    by (simp add: run_defs defaultValue_def)
  from object_nodes_shape [of noFloat ?t ?p] run have nodes: "objectNodes ?p" by blast
  have m: "reflectSchemaByType noFloat (TMap TString TInt) =
             Inr (Property ObjectT [] None None None None None)"
    by (simp add: bare_def)
  have s: "reflectSchemaByType noFloat ?s =
     Inr (Property ObjectT [] None
            (Some [(''N'', Property Integer [] None None None None None)])
            (Some [''N'']) None None)"
    by (simp add: run_defs)
  from run nodes m s show ?thesis by simp
qed

text \<open>
  C6 as stated fails on a field that is a string-keyed map, whose object has
  neither properties nor required list, and on a struct field with a default
  tag, whose object carries the text of the tag as its default.
\<close>

theorem object_nodes_counterexample:
  "reflectSchemaByObject noFloat
     (TStruct ''pkg'' ''T'' ''pkg.T''
        [StructField ''Opts'' False True [] (TMap TString TInt)]) =
     Inr (Property ObjectT [] None
            (Some [(''Opts'', Property ObjectT [] None None None None None)])
            (Some [''Opts'']) None None) \<and>
   \<not> spec_objectNodes
       (Property ObjectT [] None
          (Some [(''Opts'', Property ObjectT [] None None None None None)])
          (Some [''Opts'']) None (None :: unit anyval option)) \<and>
   reflectSchemaByObject noFloat
     (TStruct ''pkg'' ''T'' ''pkg.T''
        [StructField ''Sub'' False True [(''default'', ''{}'')]
           (TStruct ''pkg'' ''S'' ''pkg.S'' [])]) =
     Inr (Property ObjectT [] None
            (Some [(''Sub'',
                    Property ObjectT [] None (Some []) (Some []) None (Some (VString ''{}'')))])
            (Some [''Sub'']) None None) \<and>
   \<not> spec_objectNodes
       (Property ObjectT [] None
          (Some [(''Sub'',
                  Property ObjectT [] None (Some []) (Some []) None
                    (Some (VString ''{}'' :: unit anyval)))])
          (Some [''Sub'']) None None)"
  by (simp add: run_defs defaultValue_def spec_objectNodes_def spec_objectNode_def)

end
